theory Spec2Isabelle
  imports Main "HOL-Library.Multiset"
begin

section \<open>Strings\<close>

text \<open>
  A JavaScript string is a sequence of UTF-16 code units. Text that the program
  inspects (titles, authors, tags, queries, rank titles) is modelled as the list of
  its code units, a surrogate pair counting as one element, the character it
  encodes (text is taken to be well formed, and the built-in functions that the
  normalizer calls read it by characters); identifiers, which the program only
  compares, are modelled as \<open>string\<close>.
\<close>

type_synonym ustring = "nat list"

definition ascii :: "string \<Rightarrow> ustring" where
  "ascii s = map of_char s"

section \<open>Rank engine (types.ts)\<close>

datatype RankSystem = NONE | CULTIVATION | GALAXY | GAME | DEMON | MAGE

text \<open>
  \<open>RANK_TITLES\<close>, types.ts lines 83-90. Each title is given by its code units; the
  comment beside it is the title without its diacritics.
\<close>

fun RANK_TITLES :: "RankSystem \<Rightarrow> ustring list" where
  "RANK_TITLES NONE = []"
| "RANK_TITLES CULTIVATION =
   [[80, 104, 224, 109, 32, 78, 104, 226, 110], \<comment> \<open>Pham Nhan\<close>
    [76, 117, 121, 7879, 110, 32, 75, 104, 237], \<comment> \<open>Luyen Khi\<close>
    [84, 114, 250, 99, 32, 67, 417], \<comment> \<open>Truc Co\<close>
    [75, 105, 109, 32, 272, 97, 110], \<comment> \<open>Kim Dan\<close>
    [78, 103, 117, 121, 234, 110, 32, 65, 110, 104], \<comment> \<open>Nguyen Anh\<close>
    [72, 243, 97, 32, 84, 104, 7847, 110], \<comment> \<open>Hoa Than\<close>
    [76, 117, 121, 7879, 110, 32, 72, 432], \<comment> \<open>Luyen Hu\<close>
    [72, 7907, 112, 32, 84, 104, 7875], \<comment> \<open>Hop The\<close>
    [272, 7841, 105, 32, 84, 104, 7915, 97], \<comment> \<open>Dai Thua\<close>
    [272, 7897, 32, 75, 105, 7871, 112]] \<comment> \<open>Do Kiep\<close>"
| "RANK_TITLES GALAXY =
   [[78, 103, 432, 7901, 105, 32, 84, 104, 432, 7901, 110, 103], \<comment> \<open>Nguoi Thuong\<close>
    [72, 7885, 99, 32, 272, 7891], \<comment> \<open>Hoc Do\<close>
    [72, 224, 110, 104, 32, 84, 105, 110, 104], \<comment> \<open>Hanh Tinh\<close>
    [72, 7857, 110, 103, 32, 84, 105, 110, 104], \<comment> \<open>Hang Tinh\<close>
    [86, 361, 32, 84, 114, 7909], \<comment> \<open>Vu Tru\<close>
    [86, 7921, 99, 32, 67, 104, 7911], \<comment> \<open>Vuc Chu\<close>
    [71, 105, 7899, 105, 32, 67, 104, 7911], \<comment> \<open>Gioi Chu\<close>
    [66, 7845, 116, 32, 72, 7911], \<comment> \<open>Bat Hu\<close>
    [84, 244, 110, 32, 71, 105, 7843], \<comment> \<open>Ton Gia\<close>
    [67, 104, 105, 32, 67, 104, 7911]] \<comment> \<open>Chi Chu\<close>"
| "RANK_TITLES GAME =
   [[84, 7853, 112, 32, 83, 7921], \<comment> \<open>Tap Su\<close>
    [272, 7891, 110, 103], \<comment> \<open>Dong\<close>
    [66, 7841, 99], \<comment> \<open>Bac\<close>
    [86, 224, 110, 103], \<comment> \<open>Vang\<close>
    [66, 7841, 99, 104, 32, 75, 105, 109], \<comment> \<open>Bach Kim\<close>
    [75, 105, 109, 32, 67, 432, 417, 110, 103], \<comment> \<open>Kim Cuong\<close>
    [84, 105, 110, 104, 32, 65, 110, 104], \<comment> \<open>Tinh Anh\<close>
    [67, 97, 111, 32, 84, 104, 7911], \<comment> \<open>Cao Thu\<close>
    [84, 104, 225, 99, 104, 32, 272, 7845, 117], \<comment> \<open>Thach Dau\<close>
    [72, 117, 121, 7873, 110, 32, 84, 104, 111, 7841, 105]] \<comment> \<open>Huyen Thoai\<close>"
| "RANK_TITLES DEMON =
   [[76, 105, 110, 104, 32, 72, 7891, 110], \<comment> \<open>Linh Hon\<close>
    [84, 105, 7875, 117, 32, 81, 117, 7927], \<comment> \<open>Tieu Quy\<close>
    [193, 99, 32, 81, 117, 7927], \<comment> \<open>Ac Quy\<close>
    [81, 117, 7927, 32, 84, 432, 7899, 110, 103], \<comment> \<open>Quy Tuong\<close>
    [81, 117, 7927, 32, 83, 111, 225, 105], \<comment> \<open>Quy Soai\<close>
    [81, 117, 7927, 32, 86, 432, 417, 110, 103], \<comment> \<open>Quy Vuong\<close>
    [272, 7841, 105, 32, 81, 117, 7927, 32, 86, 432, 417, 110, 103], \<comment> \<open>Dai Quy Vuong\<close>
    [77, 97, 32, 84, 104, 7847, 110], \<comment> \<open>Ma Than\<close>
    [67, 104, 250, 97, 32, 84, 7875], \<comment> \<open>Chua Te\<close>
    [72, 432, 32, 86, 244]] \<comment> \<open>Hu Vo\<close>"
| "RANK_TITLES MAGE =
   [[78, 103, 432, 7901, 105, 32, 84, 104, 432, 7901, 110, 103], \<comment> \<open>Nguoi Thuong\<close>
    [72, 7885, 99, 32, 86, 105, 7879, 99], \<comment> \<open>Hoc Viec\<close>
    [80, 104, 225, 112, 32, 83, 432], \<comment> \<open>Phap Su\<close>
    [272, 7841, 105, 32, 80, 104, 225, 112, 32, 83, 432], \<comment> \<open>Dai Phap Su\<close>
    [77, 97, 32, 272, 7841, 111, 32, 83, 432], \<comment> \<open>Ma Dao Su\<close>
    [272, 7841, 105, 32, 77, 97, 32, 272, 7841, 111, 32, 83, 432], \<comment> \<open>Dai Ma Dao Su\<close>
    [84, 104, 225, 110, 104, 32, 80, 104, 225, 112, 32, 83, 432], \<comment> \<open>Thanh Phap Su\<close>
    [80, 104, 225, 112, 32, 84, 104, 7847, 110], \<comment> \<open>Phap Than\<close>
    [67, 104, 226, 110, 32, 76, 253], \<comment> \<open>Chan Ly\<close>
    [272, 7845, 110, 103, 32, 83, 225, 110, 103, 32, 84, 7841, 111]] \<comment> \<open>Dang Sang Tao\<close>"

definition EXP_THRESHOLDS :: "int list" where
  "EXP_THRESHOLDS = [0, 100, 300, 600, 1000, 1500, 2100, 2800, 3600, 4500]"

text \<open>
  The loop of \<open>getUserRank\<close> (types.ts lines 97-103): \<open>level\<close> starts at 0, the index
  runs from the last threshold down to 0 and stops at the first threshold that \<open>exp\<close>
  reaches. \<open>levelLoop exp i\<close> is the value of \<open>level\<close> when the loop is entered at
  index \<open>i\<close>; when no threshold is reached, \<open>level\<close> keeps its initial 0.
\<close>

fun levelLoop :: "int \<Rightarrow> nat \<Rightarrow> nat" where
  "levelLoop exp 0 = (if exp \<ge> EXP_THRESHOLDS ! 0 then 0 else 0)"
| "levelLoop exp (Suc i) =
     (if exp \<ge> EXP_THRESHOLDS ! Suc i then Suc i else levelLoop exp i)"

text \<open>Decimal digits of a number, for the template literal of the fallback label.\<close>

fun decimal :: "nat \<Rightarrow> ustring" where
  "decimal n = (if n < 10 then [48 + n] else decimal (n div 10) @ [48 + n mod 10])"

declare decimal.simps [simp del]

text \<open>The template literal of the last line of \<open>getUserRank\<close>: the word of code units 67, 7845, 112 (Cap), a space, and \<open>level + 1\<close> in decimal.\<close>

definition fallbackLabel :: "nat \<Rightarrow> ustring" where
  "fallbackLabel level = [67, 7845, 112, 32] @ decimal (level + 1)"

text \<open>
  \<open>titles[level]\<close> is falsy when the index is outside the array (the read gives
  \<open>undefined\<close>) or when the title is the empty string; then \<open>||\<close> takes the label.
\<close>

definition titleMissing :: "ustring list \<Rightarrow> nat \<Rightarrow> bool" where
  "titleMissing titles level = (level \<ge> length titles \<or> titles ! level = [])"

definition titleOrFallback :: "ustring list \<Rightarrow> nat \<Rightarrow> ustring" where
  "titleOrFallback titles level =
     (if titleMissing titles level then fallbackLabel level else titles ! level)"

text \<open>
  \<open>getUserRank\<close>, types.ts lines 94-107. An omitted argument is \<open>None\<close> and takes the
  default of the parameter list (\<open>exp = 0\<close>, \<open>system = 'NONE'\<close>). Experience is an
  integer: the program only ever adds 10 to it.
\<close>

definition expOrDefault :: "int option \<Rightarrow> int" where
  "expOrDefault exp_arg = (case exp_arg of None \<Rightarrow> 0 | Some e \<Rightarrow> e)"

definition rankLevel :: "int \<Rightarrow> nat" where
  "rankLevel exp = levelLoop exp (length EXP_THRESHOLDS - 1)"

definition getUserRank :: "int option \<Rightarrow> RankSystem option \<Rightarrow> ustring" where
  "getUserRank exp_arg system_arg =
     (let exp = expOrDefault exp_arg;
          system = (case system_arg of None \<Rightarrow> NONE | Some s \<Rightarrow> s)
      in if system = NONE then []
         else titleOrFallback (RANK_TITLES system) (rankLevel exp))"

section \<open>Data model (types.ts)\<close>

text \<open>
  The interfaces of types.ts. An optional field (\<open>field?: T\<close>) is an \<open>option\<close>. A field
  name shared by several interfaces carries the interface as a suffix.
  \<open>Comment\<close> is recursive through its \<open>replies\<close>, so it is a datatype; the others are
  records.
\<close>

datatype Comment = Comment
  (id_comment: string)
  (userId: string)
  (username: ustring)
  (userAvatar: string)
  (userTitle: "ustring option")
  (userRankSystem: "RankSystem option")
  (content: ustring)
  (replies: "Comment list option")
  (likes: "string list option")
  (createdAt_comment: int)

text \<open>The object spreads \<open>{ ...c, replies: rs }\<close> and \<open>{ ...c, likes: ls }\<close>.\<close>

fun withReplies :: "Comment \<Rightarrow> Comment list option \<Rightarrow> Comment" where
  "withReplies (Comment i u n a t r ct rs ls ca) rs' = Comment i u n a t r ct rs' ls ca"

fun withLikes :: "Comment \<Rightarrow> string list option \<Rightarrow> Comment" where
  "withLikes (Comment i u n a t r ct rs ls ca) ls' = Comment i u n a t r ct rs ls' ca"

text \<open>\<open>xs || []\<close> for an optional array: an array, even an empty one, is truthy.\<close>

definition orEmpty :: "'a list option \<Rightarrow> 'a list" where
  "orEmpty xs = (case xs of None \<Rightarrow> [] | Some l \<Rightarrow> l)"

text \<open>
  \<open>n || 0\<close> for an optional number: \<open>undefined\<close> and 0 are falsy, every other integer
  is kept.
\<close>

definition orZero :: "int option \<Rightarrow> int" where
  "orZero n = (case n of None \<Rightarrow> 0 | Some v \<Rightarrow> if v = 0 then 0 else v)"

record Chapter =
  id_chapter :: string
  title_chapter :: ustring
  pages :: "string list"
  comments_chapter :: "Comment list option"
  viewCount_chapter :: "int option"
  createdAt_chapter :: int

record Rating =
  userId_rating :: string
  score :: int

record ReadingProgress =
  chapterId :: string
  chapterTitle :: ustring
  pageIndex :: int
  timestamp :: int

datatype Status = ONGOING | COMPLETED

record Comic =
  id_comic :: string
  title_comic :: ustring
  author :: ustring
  description :: ustring
  tags :: "ustring list"
  coverImage :: string
  chapters :: "Chapter list"
  comments_comic :: "Comment list"
  ratings :: "Rating list"
  status :: Status
  viewCount_comic :: "int option"
  lastRead :: "ReadingProgress option"
  createdAt_comic :: int
  updatedAt :: int

datatype Role = ADMIN | USER

record User =
  id_user :: string
  username_user :: ustring
  password :: "string option"
  email :: string
  avatar :: "string option"
  role :: Role
  exp :: "int option"
  rankSystem :: "RankSystem option"
  followedComics :: "string list option"

datatype ViewState = GALLERY | DETAIL | READER

section \<open>Comment tree engine (App.tsx)\<close>

text \<open>
  \<open>toggleLikeInComments\<close>, App.tsx lines 531-546: a \<open>map\<close> over the array whose
  callback rewrites the likes of a comment with the given id, descends into a
  non-empty \<open>replies\<close> otherwise, and returns every other comment as it is.
\<close>

fun toggleLikeInComments :: "Comment list \<Rightarrow> string \<Rightarrow> string \<Rightarrow> Comment list" where
  "toggleLikeInComments comments commentId uid =
     map (\<lambda>c. case c of Comment i u n a t r ct rs ls ca \<Rightarrow>
        if i = commentId then
          (let currentLikes = orEmpty ls;
               isLiked = (uid \<in> set currentLikes);
               newLikes = (if isLiked then filter (\<lambda>x. x \<noteq> uid) currentLikes
                           else currentLikes @ [uid])
           in withLikes c (Some newLikes))
        else (case rs of
                Some (x # xs) \<Rightarrow>
                  withReplies c (Some (toggleLikeInComments (x # xs) commentId uid))
              | _ \<Rightarrow> c)) comments"

text \<open>The callback of that \<open>map\<close>, as a function of its own.\<close>

definition toggleOne :: "string \<Rightarrow> string \<Rightarrow> Comment \<Rightarrow> Comment" where
  "toggleOne commentId uid c =
     (if id_comment c = commentId then
        withLikes c (Some (if uid \<in> set (orEmpty (likes c))
                           then filter (\<lambda>x. x \<noteq> uid) (orEmpty (likes c))
                           else orEmpty (likes c) @ [uid]))
      else if orEmpty (replies c) \<noteq> [] then
        withReplies c (Some (toggleLikeInComments (orEmpty (replies c)) commentId uid))
      else c)"

text \<open>
  \<open>addReplyRecursively\<close>, App.tsx lines 514-528, with the array it mutates passed
  through: the result is the array as the caller reads it after the call, and the
  boolean the function returns. The loop leaves at the first comment with the given
  id, after pushing the reply onto its \<open>replies\<close> (created empty when absent); it
  descends into a non-empty \<open>replies\<close> before it goes on to the next sibling.
\<close>

fun addReplyRecursively :: "Comment list \<Rightarrow> string \<Rightarrow> Comment \<Rightarrow> Comment list \<times> bool" where
  "addReplyRecursively [] parentId newReply = ([], False)"
| "addReplyRecursively (c # rest) parentId newReply =
     (case c of Comment i u n a t r ct rs ls ca \<Rightarrow>
        if i = parentId then
          (withReplies c (Some (orEmpty rs @ [newReply])) # rest, True)
        else
          (case rs of
             Some (x # xs) \<Rightarrow>
               (case addReplyRecursively (x # xs) parentId newReply of
                  (rs', True) \<Rightarrow> (withReplies c (Some rs') # rest, True)
                | (rs', False) \<Rightarrow>
                    (case addReplyRecursively rest parentId newReply of
                       (rest', found) \<Rightarrow> (withReplies c (Some rs') # rest', found)))
           | _ \<Rightarrow>
               (case addReplyRecursively rest parentId newReply of
                  (rest', found) \<Rightarrow> (c # rest', found))))"

subsection \<open>Notions for stating the properties of the engine\<close>

text \<open>The comments of a forest in pre-order: a comment, then its replies, then its next sibling.\<close>

fun preorder :: "Comment list \<Rightarrow> Comment list" where
  "preorder [] = []"
| "preorder (c # cs) =
     (case c of Comment i u n a t r ct rs ls ca \<Rightarrow>
        c # (case rs of None \<Rightarrow> [] | Some xs \<Rightarrow> preorder xs) @ preorder cs)"

definition countComments :: "Comment list \<Rightarrow> nat" where
  "countComments forest = length (preorder forest)"

text \<open>
  The same enumeration with the position of each comment: the list of indices that
  leads to it from the top level of the forest (\<open>k\<close> is the index of the first
  element of the list).
\<close>

fun preorderPaths :: "nat \<Rightarrow> Comment list \<Rightarrow> (nat list \<times> Comment) list" where
  "preorderPaths k [] = []"
| "preorderPaths k (c # cs) =
     (case c of Comment i u n a t r ct rs ls ca \<Rightarrow>
        ([k], c) #
        map (\<lambda>(p, d). (k # p, d)) (case rs of None \<Rightarrow> [] | Some xs \<Rightarrow> preorderPaths 0 xs) @
        preorderPaths (Suc k) cs)"

definition findPath :: "nat \<Rightarrow> Comment list \<Rightarrow> string \<Rightarrow> nat list option" where
  "findPath k f parentId =
     map_option fst (find (\<lambda>(p, d). id_comment d = parentId) (preorderPaths k f))"

text \<open>The position of the first comment, in pre-order, with the given id.\<close>

definition firstMatch :: "Comment list \<Rightarrow> string \<Rightarrow> nat list option" where
  "firstMatch forest parentId = findPath 0 forest parentId"

text \<open>
  The forest with a comment appended to the replies of the comment at a position;
  nothing else in the forest is touched.
\<close>

fun appendReplyAt :: "nat list \<Rightarrow> Comment \<Rightarrow> Comment list \<Rightarrow> Comment list" where
  "appendReplyAt [] n forest = forest"
| "appendReplyAt [k] n forest =
     forest[k := withReplies (forest ! k) (Some (orEmpty (replies (forest ! k)) @ [n]))]"
| "appendReplyAt (k # p) n forest =
     forest[k := withReplies (forest ! k)
                   (Some (appendReplyAt p n (orEmpty (replies (forest ! k)))))]"

text \<open>A comment without its replies: what identifies it among its siblings.\<close>

definition stripReplies :: "Comment \<Rightarrow> Comment" where
  "stripReplies c = withReplies c None"

text \<open>
  A comment as its readers see it when the likes of the comments with the id
  \<open>commentId\<close> are read as a set of users (an absent array as the empty set) and
  everything else is read as stored.
\<close>

datatype LikesView = Members "string set" | Stored "string list option"

datatype CommentView = CommentView string string ustring string "ustring option"
  "RankSystem option" ustring "CommentView list option" LikesView int

fun viewComment :: "string \<Rightarrow> Comment \<Rightarrow> CommentView" where
  "viewComment commentId (Comment i u n a t r ct rs ls ca) =
     CommentView i u n a t r ct (map_option (map (viewComment commentId)) rs)
       (if i = commentId then Members (set (orEmpty ls)) else Stored ls) ca"

text \<open>A comment with the given id, replies and likes, for the examples.\<close>

definition mk :: "string \<Rightarrow> Comment list option \<Rightarrow> string list option \<Rightarrow> Comment" where
  "mk i rs ls = Comment i ''u1'' (ascii ''reader'') [] None None (ascii ''hello'') rs ls 0"

definition exampleForest :: "Comment list" where
  "exampleForest =
     [mk ''a'' None None,
      mk ''b'' (Some [mk ''t'' None None, mk ''c'' (Some []) None]) None,
      mk ''t'' (Some []) None]"

definition exampleReply :: Comment where
  "exampleReply = mk ''n'' (Some []) (Some [])"

section \<open>The comment arrays as shared objects (App.tsx)\<close>

text \<open>
  \<open>addReplyRecursively\<close> writes into the objects it is given, and the array that
  \<open>handleAddChapterComment\<close> passes to it is a copy that holds the same comment
  objects as the array of the chapter. Whether a caller sees the write depends on
  this sharing, so here arrays and comment objects live in a store and are named
  by references. A comment object holds its own fields and a reference to its
  \<open>replies\<close> array (the \<open>replies\<close> of \<open>ownFields\<close> is not read).
\<close>

type_synonym ref = nat

record CommentObj =
  ownFields :: Comment
  repliesRef :: "ref option"

record Store =
  objects :: "ref \<rightharpoonup> CommentObj"
  arrays :: "ref \<rightharpoonup> ref list"
  nextRef :: ref

text \<open>A new array or object gets the next unused reference.\<close>

definition allocArray :: "Store \<Rightarrow> ref list \<Rightarrow> Store \<times> ref" where
  "allocArray s elems =
     (s\<lparr>arrays := (arrays s)(nextRef s \<mapsto> elems), nextRef := Suc (nextRef s)\<rparr>, nextRef s)"

definition allocObject :: "Store \<Rightarrow> CommentObj \<Rightarrow> Store \<times> ref" where
  "allocObject s obj =
     (s\<lparr>objects := (objects s)(nextRef s \<mapsto> obj), nextRef := Suc (nextRef s)\<rparr>, nextRef s)"

text \<open>\<open>array.push(r)\<close>, in place.\<close>

definition push :: "Store \<Rightarrow> ref \<Rightarrow> ref \<Rightarrow> Store option" where
  "push s a r =
     (case arrays s a of None \<Rightarrow> None
      | Some elems \<Rightarrow> Some (s\<lparr>arrays := (arrays s)(a \<mapsto> elems @ [r])\<rparr>))"

text \<open>
  \<open>addReplyRecursively\<close>, App.tsx lines 514-528, on the store. \<open>i\<close> is the position of
  the \<open>for ... of\<close> loop in the array \<open>comments\<close>. A store may hold a cycle, on which
  the source recurses without end; each iteration and each call takes one unit of
  fuel, and \<open>None\<close> is a run that did not finish (or met a dangling reference).
\<close>

fun addReplyRecursively_store ::
  "nat \<Rightarrow> Store \<Rightarrow> ref \<Rightarrow> nat \<Rightarrow> string \<Rightarrow> ref \<Rightarrow> (Store \<times> bool) option" where
  "addReplyRecursively_store 0 s comments i parentId newReply = None"
| "addReplyRecursively_store (Suc fuel) s comments i parentId newReply =
     (case arrays s comments of
        None \<Rightarrow> None
      | Some elems \<Rightarrow>
          if i \<ge> length elems then Some (s, False)
          else
            (case objects s (elems ! i) of
               None \<Rightarrow> None
             | Some comment \<Rightarrow>
                 if id_comment (ownFields comment) = parentId then
                   (case repliesRef comment of
                      None \<Rightarrow>
                        (case allocArray s [] of
                           (s1, a) \<Rightarrow>
                             map_option (\<lambda>s2. (s2, True))
                               (push (s1\<lparr>objects := (objects s1)
                                          (elems ! i \<mapsto> comment\<lparr>repliesRef := Some a\<rparr>)\<rparr>)
                                  a newReply))
                    | Some a \<Rightarrow> map_option (\<lambda>s2. (s2, True)) (push s a newReply))
                 else
                   (case repliesRef comment of
                      None \<Rightarrow> addReplyRecursively_store fuel s comments (Suc i) parentId newReply
                    | Some a \<Rightarrow>
                        (case arrays s a of
                           None \<Rightarrow> None
                         | Some rs \<Rightarrow>
                             if length rs > 0 then
                               (case addReplyRecursively_store fuel s a 0 parentId newReply of
                                  None \<Rightarrow> None
                                | Some (s1, True) \<Rightarrow> Some (s1, True)
                                | Some (s1, False) \<Rightarrow>
                                    addReplyRecursively_store fuel s1 comments (Suc i)
                                      parentId newReply)
                             else addReplyRecursively_store fuel s comments (Suc i)
                                    parentId newReply))))"

text \<open>
  The part of \<open>handleAddChapterComment\<close> that computes \<open>updatedComments\<close>, App.tsx lines
  551-570: the new comment object is created with \<open>replies: []\<close>, the array of the
  chapter (or \<open>[]\<close>) is spread into a new array, and then either
  \<open>addReplyRecursively\<close> runs on that array (a non-empty \<open>parentId\<close>) or the new comment
  is pushed onto it. The result is the store and the reference of \<open>updatedComments\<close>.
\<close>

definition updatedComments_store ::
  "nat \<Rightarrow> Store \<Rightarrow> ref option \<Rightarrow> string option \<Rightarrow> Comment \<Rightarrow> (Store \<times> ref) option" where
  "updatedComments_store fuel s comments parentId newComment =
     (case allocArray s [] of
        (s1, noReplies) \<Rightarrow>
     (case allocObject s1 \<lparr>ownFields = newComment, repliesRef = Some noReplies\<rparr> of
        (s2, newRef) \<Rightarrow>
     (case (case comments of None \<Rightarrow> Some [] | Some a \<Rightarrow> arrays s2 a) of
        None \<Rightarrow> None
      | Some elems \<Rightarrow>
     (case allocArray s2 elems of
        (s3, updatedComments) \<Rightarrow>
          (case parentId of
             Some pid \<Rightarrow>
               if pid \<noteq> [] then
                 map_option (\<lambda>(s4, found). (s4, updatedComments))
                   (addReplyRecursively_store fuel s3 updatedComments 0 pid newRef)
               else map_option (\<lambda>s4. (s4, updatedComments)) (push s3 updatedComments newRef)
           | None \<Rightarrow> map_option (\<lambda>s4. (s4, updatedComments)) (push s3 updatedComments newRef))))))"

text \<open>The forest that a reader of the array \<open>a\<close> sees in the store.\<close>

fun readForest :: "nat \<Rightarrow> Store \<Rightarrow> ref \<Rightarrow> Comment list option" where
  "readForest 0 s a = None"
| "readForest (Suc fuel) s a =
     (case arrays s a of
        None \<Rightarrow> None
      | Some elems \<Rightarrow>
          those (map (\<lambda>r. case objects s r of
                             None \<Rightarrow> None
                           | Some obj \<Rightarrow>
                               (case repliesRef obj of
                                  None \<Rightarrow> Some (withReplies (ownFields obj) None)
                                | Some ra \<Rightarrow>
                                    map_option (\<lambda>rs. withReplies (ownFields obj) (Some rs))
                                      (readForest fuel s ra))) elems))"

text \<open>
  A chapter whose \<open>comments\<close> array (reference 0) holds one comment (reference 1)
  with id \<open>p\<close> and no replies.
\<close>

definition exampleStore :: Store where
  "exampleStore =
     \<lparr>objects = [1 \<mapsto> \<lparr>ownFields = mk ''p'' None None, repliesRef = None\<rparr>],
      arrays = [0 \<mapsto> [1]],
      nextRef = 2\<rparr>"

section \<open>Application state, effects and handlers (App.tsx)\<close>

text \<open>
  The state of the \<open>App\<close> component that the engines read and write: the \<open>useState\<close>
  cells of lines 33-53 (without the cells that only open dialogs or show a
  notification) and the entry \<open>vinatoon_last_session\<close> of the local storage. Writes to
  the library store (\<open>saveComicToLibrary\<close>) and to the stored user profile leave this
  state as it is and are not part of it. The search scope \<open>'ALL'\<close> is named
  \<open>ALL_scope\<close>, since \<open>ALL\<close> is a quantifier of the logic.
\<close>

datatype SortOption = LATEST | VIEWS | AZ

datatype SearchScope = ALL_scope | TITLE | AUTHOR

record ResumeData =
  resumeComic :: Comic
  resumeChapter :: "Chapter option"

text \<open>
  What \<open>localStorage.getItem('vinatoon_last_session')\<close> holds: nothing, a text that
  \<open>JSON.parse\<close> rejects or that has no fields to read, or the pointer that the
  program wrote, \<open>{comicId, chapterId?}\<close>.
\<close>

datatype StoredSession = Missing | Unparsable | Session string "string option"

record App =
  view :: ViewState
  comics :: "Comic list"
  searchQuery :: ustring
  selectedCategory :: ustring
  sortOption :: SortOption
  searchScope :: SearchScope
  selectedComic :: "Comic option"
  selectedChapter :: "Chapter option"
  user :: "User option"
  resumeData :: "ResumeData option"
  lastSession :: StoredSession

text \<open>
  The body of the \<open>try\<close> block of the first effect, App.tsx lines 83-95, as a function
  of the stored entry and the library: \<open>Inl\<close> is an exception thrown in the block,
  \<open>Inr r\<close> the argument of \<open>setResumeData\<close>, or \<open>Inr None\<close> when it is not called. The
  chapter is looked up only for a truthy (present, non-empty) \<open>chapterId\<close>.
\<close>

datatype SessionError = ParseError

definition tryResolveSession :: "StoredSession \<Rightarrow> Comic list \<Rightarrow> SessionError + ResumeData option" where
  "tryResolveSession stored cs =
     (case stored of
        Missing \<Rightarrow> Inr None
      | Unparsable \<Rightarrow> Inl ParseError
      | Session comicId chId \<Rightarrow>
          (case find (\<lambda>c. id_comic c = comicId) cs of
             None \<Rightarrow> Inr None
           | Some foundComic \<Rightarrow>
               Inr (Some \<lparr>resumeComic = foundComic,
                          resumeChapter =
                            (case chId of
                               None \<Rightarrow> None
                             | Some i \<Rightarrow>
                                 if i \<noteq> [] then find (\<lambda>ch. id_chapter ch = i) (chapters foundComic)
                                 else None)\<rparr>)))"

text \<open>The \<open>catch\<close> clause logs the exception and goes on: no candidate.\<close>

definition resolveSession :: "StoredSession \<Rightarrow> Comic list \<Rightarrow> ResumeData option" where
  "resolveSession stored cs =
     (case tryResolveSession stored cs of Inl e \<Rightarrow> None | Inr r \<Rightarrow> r)"

text \<open>The first effect, lines 80-100, with its guard.\<close>

definition resumeEffect :: "App \<Rightarrow> App" where
  "resumeEffect s =
     (if comics s \<noteq> [] \<and> selectedComic s = None then
        (case resolveSession (lastSession s) (comics s) of
           None \<Rightarrow> s
         | Some r \<Rightarrow> s\<lparr>resumeData := Some r\<rparr>)
      else s)"

text \<open>The second effect, lines 102-114.\<close>

definition sessionEffect :: "App \<Rightarrow> App" where
  "sessionEffect s =
     (case selectedComic s of
        None \<Rightarrow> s
      | Some sc \<Rightarrow>
          (let s1 = s\<lparr>lastSession := Session (id_comic sc) (map_option id_chapter (selectedChapter s))\<rparr>
           in case resumeData s of
                None \<Rightarrow> s1
              | Some r \<Rightarrow> if id_comic (resumeComic r) = id_comic sc
                          then s1\<lparr>resumeData := None\<rparr> else s1))"

text \<open>
  After a render, React runs the effects whose dependencies differ from those of
  the previous render, in the order of their declaration. The two effects never
  both write \<open>resumeData\<close> (the first needs no selected comic, the second needs one),
  so running them one after the other gives the state that their queued updates
  give. A change of \<open>resumeData\<close> causes another render; \<open>settle\<close> repeats until a
  render changes nothing, and \<open>None\<close> is a run that is out of fuel. React compares
  the dependencies by identity; on the runs considered below a dependency that is
  written gets a value different from the old one, so comparing the values gives
  the same answer.
\<close>

definition runEffects :: "App \<Rightarrow> App \<Rightarrow> App" where
  "runEffects prev cur =
     (let s1 = (if comics prev \<noteq> comics cur \<or> selectedComic prev \<noteq> selectedComic cur
                then resumeEffect cur else cur);
          s2 = (if selectedComic prev \<noteq> selectedComic cur \<or>
                   selectedChapter prev \<noteq> selectedChapter cur \<or>
                   resumeData prev \<noteq> resumeData cur
                then sessionEffect s1 else s1)
      in s2)"

fun settle :: "nat \<Rightarrow> App \<Rightarrow> App \<Rightarrow> App option" where
  "settle 0 prev cur = None"
| "settle (Suc fuel) prev cur =
     (let nxt = runEffects prev cur
      in if resumeData nxt = resumeData cur then Some nxt else settle fuel cur nxt)"

text \<open>An event: the handler updates the state, then the effects run.\<close>

definition dispatch :: "nat \<Rightarrow> (App \<Rightarrow> App) \<Rightarrow> App \<Rightarrow> App option" where
  "dispatch fuel handler s = settle fuel s (handler s)"

text \<open>\<open>prev.map(c => c.id === updated.id ? updated : c)\<close>.\<close>

definition replaceComic :: "Comic \<Rightarrow> Comic list \<Rightarrow> Comic list" where
  "replaceComic updated cs = map (\<lambda>c. if id_comic c = id_comic updated then updated else c) cs"

text \<open>The \<open>map\<close> that counts one more view for the chapters with the given id.\<close>

definition bumpChapter :: "string \<Rightarrow> Chapter list \<Rightarrow> Chapter list" where
  "bumpChapter i chs =
     map (\<lambda>ch. if id_chapter ch = i
               then ch\<lparr>viewCount_chapter := Some (orZero (viewCount_chapter ch) + 1)\<rparr>
               else ch) chs"

definition grantReadExp :: "User \<Rightarrow> User" where
  "grantReadExp u = u\<lparr>exp := Some (orZero (exp u) + 10)\<rparr>"

text \<open>\<open>handleOpenComic\<close>, lines 394-400.\<close>

definition handleOpenComic :: "Comic \<Rightarrow> App \<Rightarrow> App" where
  "handleOpenComic c s =
     (let updatedComic = c\<lparr>viewCount_comic := Some (orZero (viewCount_comic c) + 1)\<rparr>
      in s\<lparr>comics := replaceComic updatedComic (comics s),
           selectedComic := Some updatedComic,
           view := DETAIL\<rparr>)"

text \<open>
  \<open>handleReadChapter\<close>, lines 402-442: \<open>readChapter\<close> is its \<open>updatedComic\<close>, with \<open>now\<close>
  the value of \<open>Date.now()\<close>.
\<close>

definition readChapter :: "Comic \<Rightarrow> Chapter \<Rightarrow> int \<Rightarrow> Comic" where
  "readChapter sel ch now =
     sel\<lparr>chapters := bumpChapter (id_chapter ch) (chapters sel),
         lastRead := Some \<lparr>chapterId = id_chapter ch, chapterTitle = title_chapter ch,
                           pageIndex = 0, timestamp = now\<rparr>\<rparr>"

definition handleReadChapter :: "Chapter \<Rightarrow> int \<Rightarrow> App \<Rightarrow> App" where
  "handleReadChapter ch now s =
     (case selectedComic s of
        None \<Rightarrow> s
      | Some sel \<Rightarrow>
          (let updatedComic = readChapter sel ch now;
               updatedChapter =
                 (case find (\<lambda>c. id_chapter c = id_chapter ch) (chapters updatedComic) of
                    Some c \<Rightarrow> c | None \<Rightarrow> ch)
           in s\<lparr>comics := replaceComic updatedComic (comics s),
                selectedComic := Some updatedComic,
                selectedChapter := Some updatedChapter,
                user := map_option grantReadExp (user s),
                view := READER\<rparr>))"

text \<open>\<open>handleResumeSession\<close> and \<open>handleDismissResume\<close>, lines 454-493.\<close>

definition handleResumeSession :: "App \<Rightarrow> App" where
  "handleResumeSession s =
     (case resumeData s of
        None \<Rightarrow> s
      | Some rd \<Rightarrow>
          (let updatedComic = (resumeComic rd)
                 \<lparr>viewCount_comic := Some (orZero (viewCount_comic (resumeComic rd)) + 1)\<rparr>;
               s1 = s\<lparr>comics := replaceComic updatedComic (comics s),
                      selectedComic := Some updatedComic\<rparr>
           in case resumeChapter rd of
                Some rch \<Rightarrow>
                  (let updatedChapters = bumpChapter (id_chapter rch) (chapters updatedComic);
                       finalComic = updatedComic\<lparr>chapters := updatedChapters\<rparr>;
                       targetChapter =
                         (case find (\<lambda>c. id_chapter c = id_chapter rch) updatedChapters of
                            Some c \<Rightarrow> c | None \<Rightarrow> rch)
                   in s1\<lparr>comics := replaceComic finalComic (comics s1),
                         selectedComic := Some finalComic,
                         selectedChapter := Some targetChapter,
                         user := map_option grantReadExp (user s1),
                         view := READER,
                         resumeData := None\<rparr>)
              | None \<Rightarrow> s1\<lparr>view := DETAIL, resumeData := None\<rparr>))"

definition handleDismissResume :: "App \<Rightarrow> App" where
  "handleDismissResume s = s\<lparr>resumeData := None, lastSession := Missing\<rparr>"

text \<open>
  \<open>goBack\<close>, lines 502-512; the category it selects is the literal of the source
  (\<open>Tat ca\<close>, with its diacritics).
\<close>

definition goBack :: "App \<Rightarrow> App" where
  "goBack s =
     (if view s = READER then s\<lparr>view := DETAIL, selectedChapter := None\<rparr>
      else s\<lparr>view := GALLERY, selectedComic := None, searchQuery := [],
             selectedCategory := [84, 7845, 116, 32, 99, 7843]\<rparr>)"

text \<open>\<open>setComics(loadedComics)\<close> at the end of \<open>loadLibrary\<close>.\<close>

definition libraryLoaded :: "Comic list \<Rightarrow> App \<Rightarrow> App" where
  "libraryLoaded loaded s = s\<lparr>comics := loaded\<rparr>"

text \<open>A library of one comic with one chapter, and the state at start-up.\<close>

definition exampleChapter :: Chapter where
  "exampleChapter = \<lparr>id_chapter = ''ch1'', title_chapter = ascii ''Chapter 1'', pages = [],
      comments_chapter = Some [], viewCount_chapter = None, createdAt_chapter = 1\<rparr>"

definition exampleComic :: Comic where
  "exampleComic = \<lparr>id_comic = ''c1'', title_comic = ascii ''One'', author = ascii ''A'',
      description = [], tags = [], coverImage = [], chapters = [exampleChapter],
      comments_comic = [], ratings = [], status = ONGOING, viewCount_comic = None,
      lastRead = None, createdAt_comic = 1, updatedAt = 1\<rparr>"

definition initialApp :: App where
  "initialApp = \<lparr>view = GALLERY, comics = [], searchQuery = [],
      selectedCategory = [84, 7845, 116, 32, 99, 7843], sortOption = LATEST, searchScope = ALL_scope,
      selectedComic = None, selectedChapter = None, user = None, resumeData = None,
      lastSession = Missing\<rparr>"

text \<open>
  The \<open>onHomeClick\<close> handler that \<open>App\<close> passes to the header, line 610. The header is
  shown in every view; the reader has no back button of its own (\<open>goBack\<close> is passed
  to the detail view only, line 781), so this is the way from the reader to the
  gallery.
\<close>

definition onHomeClick :: "App \<Rightarrow> App" where
  "onHomeClick s =
     s\<lparr>view := GALLERY, selectedComic := None, selectedChapter := None, searchQuery := [],
       selectedCategory := [84, 7845, 116, 32, 99, 7843], searchScope := ALL_scope\<rparr>"

text \<open>
  The example library at the gallery with a pending candidate for the comic alone,
  after the resume action, and after \<open>goBack\<close>.
\<close>

definition pendingApp :: App where
  "pendingApp = initialApp\<lparr>comics := [exampleComic], lastSession := Session ''c1'' None,
      resumeData := Some \<lparr>resumeComic = exampleComic, resumeChapter = None\<rparr>\<rparr>"

definition openedComic :: Comic where
  "openedComic = exampleComic\<lparr>viewCount_comic := Some 1\<rparr>"

definition resumedApp :: App where
  "resumedApp = initialApp\<lparr>view := DETAIL, comics := [openedComic],
      selectedComic := Some openedComic, lastSession := Session ''c1'' None\<rparr>"

definition reofferedApp :: App where
  "reofferedApp = initialApp\<lparr>comics := [openedComic], lastSession := Session ''c1'' None,
      resumeData := Some \<lparr>resumeComic = openedComic, resumeChapter = None\<rparr>\<rparr>"

text \<open>
  The same with a pending candidate for the comic and its chapter: at the gallery,
  in the reader after the resume action, and after \<open>onHomeClick\<close>.
\<close>

definition pendingChapterApp :: App where
  "pendingChapterApp = initialApp\<lparr>comics := [exampleComic],
      lastSession := Session ''c1'' (Some ''ch1''),
      resumeData := Some \<lparr>resumeComic = exampleComic, resumeChapter = Some exampleChapter\<rparr>\<rparr>"

definition resumedChapter :: Chapter where
  "resumedChapter = exampleChapter\<lparr>viewCount_chapter := Some 1\<rparr>"

definition resumedComic :: Comic where
  "resumedComic = exampleComic\<lparr>viewCount_comic := Some 1, chapters := [resumedChapter]\<rparr>"

definition readingApp :: App where
  "readingApp = initialApp\<lparr>view := READER, comics := [resumedComic],
      selectedComic := Some resumedComic, selectedChapter := Some resumedChapter,
      lastSession := Session ''c1'' (Some ''ch1'')\<rparr>"

definition reofferedChapterApp :: App where
  "reofferedChapterApp = initialApp\<lparr>comics := [resumedComic],
      lastSession := Session ''c1'' (Some ''ch1''),
      resumeData := Some \<lparr>resumeComic = resumedComic, resumeChapter = Some resumedChapter\<rparr>\<rparr>"

section \<open>Text normalizer (App.tsx)\<close>

text \<open>
  \<open>removeAccents\<close>, App.tsx lines 25-30, calls two functions that are built into the
  JavaScript engine, \<open>String.prototype.normalize('NFD')\<close> and
  \<open>String.prototype.toLowerCase\<close>. The Unicode standard defines both, character by
  character, from the Unicode Character Database: the canonical decomposition of a
  character (fully expanded), its canonical combining class, its lowercase mapping,
  and the properties Cased and Case_Ignorable. The engine brings the database with
  it; the model takes it as a parameter \<open>u\<close>, so that what is proved of
  \<open>removeAccentsWith u\<close> holds for every database that has the properties assumed.

  Both functions read the string by characters: a surrogate pair is one character
  to them. In this section an element of a string is therefore a character (a code
  point). The regular expressions of \<open>removeAccents\<close> match single code units below
  U+0370 only, so they too can be read character by character.
\<close>

record UnicodeData =
  decomposition :: "nat \<Rightarrow> nat list"
  combiningClass :: "nat \<Rightarrow> nat"
  lowercase :: "nat \<Rightarrow> nat list"
  cased :: "nat \<Rightarrow> bool"
  caseIgnorable :: "nat \<Rightarrow> bool"

text \<open>
  Canonical ordering: in every run of characters of class other than 0, the
  characters are sorted by class, those of equal class keeping their order.
  \<open>placeUnit\<close> puts one character in front of a string that is already ordered.
\<close>

fun placeUnit :: "UnicodeData \<Rightarrow> nat \<Rightarrow> nat list \<Rightarrow> nat list" where
  "placeUnit u x [] = [x]"
| "placeUnit u x (y # ys) =
     (if combiningClass u x \<noteq> 0 \<and> combiningClass u y \<noteq> 0 \<and>
         combiningClass u y < combiningClass u x
      then y # placeUnit u x ys else x # y # ys)"

definition canonicalOrder :: "UnicodeData \<Rightarrow> ustring \<Rightarrow> ustring" where
  "canonicalOrder u s = foldr (placeUnit u) s []"

text \<open>\<open>str.normalize('NFD')\<close>: decompose every character, then order the marks.\<close>

definition normalizeNFD :: "UnicodeData \<Rightarrow> ustring \<Rightarrow> ustring" where
  "normalizeNFD u s = canonicalOrder u (concat (map (decomposition u) s))"

text \<open>
  \<open>str.toLowerCase()\<close> goes through the string and maps every character by the
  lowercase mapping, whatever stands around it, with one exception (the condition
  Final_Sigma of the standard): capital sigma, U+03A3, becomes final sigma, U+03C2,
  when a cased letter stands before it and none after it, case-ignorable characters
  in between being skipped, and small sigma, U+03C3, otherwise. \<open>lowerFrom\<close> has the
  characters already passed, the nearest first, as its second argument.
\<close>

definition casedNext :: "UnicodeData \<Rightarrow> ustring \<Rightarrow> bool" where
  "casedNext u s =
     (case dropWhile (caseIgnorable u) s of [] \<Rightarrow> False | c # rest \<Rightarrow> cased u c)"

definition finalSigma :: "UnicodeData \<Rightarrow> ustring \<Rightarrow> ustring \<Rightarrow> bool" where
  "finalSigma u before after = (casedNext u before \<and> \<not> casedNext u after)"

definition lowerChar :: "UnicodeData \<Rightarrow> ustring \<Rightarrow> nat \<Rightarrow> ustring \<Rightarrow> ustring" where
  "lowerChar u before c after =
     (if c = 931 then [if finalSigma u before after then 962 else 963] else lowercase u c)"

fun lowerFrom :: "UnicodeData \<Rightarrow> ustring \<Rightarrow> ustring \<Rightarrow> ustring" where
  "lowerFrom u before [] = []"
| "lowerFrom u before (c # after) = lowerChar u before c after @ lowerFrom u (c # before) after"

definition toLowerCase :: "UnicodeData \<Rightarrow> ustring \<Rightarrow> ustring" where
  "toLowerCase u s = lowerFrom u [] s"

text \<open>The character class of the first \<open>replace\<close>: U+0300 to U+036F.\<close>

definition isCombiningMark :: "nat \<Rightarrow> bool" where
  "isCombiningMark c = (768 \<le> c \<and> c \<le> 879)"

text \<open>\<open>str.replace(/a/g, 'b')\<close> for single characters \<open>a\<close> and \<open>b\<close>.\<close>

definition replaceUnit :: "nat \<Rightarrow> nat \<Rightarrow> ustring \<Rightarrow> ustring" where
  "replaceUnit a b s = map (\<lambda>c. if c = a then b else c) s"

text \<open>
  \<open>removeAccents\<close>: NFD, without the combining marks, with d-stroke (U+0111, U+0110)
  replaced by \<open>d\<close> and \<open>D\<close>, in lower case.
\<close>

definition removeAccentsWith :: "UnicodeData \<Rightarrow> ustring \<Rightarrow> ustring" where
  "removeAccentsWith u str =
     toLowerCase u
       (replaceUnit 272 68
          (replaceUnit 273 100
             (filter (\<lambda>c. \<not> isCombiningMark c) (normalizeNFD u str))))"

subsection \<open>The database for Latin and Vietnamese text\<close>

text \<open>
  To run \<open>removeAccents\<close> on the text of the application, the tables below give the
  database for the characters
  U+0000-U+017F (Basic Latin, Latin-1 Supplement, Latin Extended-A),
  U+01A0, U+01A1, U+01AF, U+01B0 (O and U with horn),
  U+0300-U+036F (Combining Diacritical Marks),
  U+1EA0-U+1EF9 (the Vietnamese letters of Latin Extended Additional),
  U+05B0-U+05B9 (Hebrew points) and the three sigmas.
  A character without an entry is its own decomposition, its own lowercase, has
  class 0 and is neither cased nor case-ignorable: for the characters listed this is
  what the database says, for any other character nothing is claimed. The first
  three tables are split into blocks of sixteen entries.
\<close>

definition decompositionTable :: "nat \<Rightarrow> nat list" where
  "decompositionTable c =
     (if c < 210 then
        (if c = 192 then [65, 768] else if c = 193 then [65, 769] else
         if c = 194 then [65, 770] else if c = 195 then [65, 771] else
         if c = 196 then [65, 776] else if c = 197 then [65, 778] else
         if c = 199 then [67, 807] else if c = 200 then [69, 768] else
         if c = 201 then [69, 769] else if c = 202 then [69, 770] else
         if c = 203 then [69, 776] else if c = 204 then [73, 768] else
         if c = 205 then [73, 769] else if c = 206 then [73, 770] else
         if c = 207 then [73, 776] else if c = 209 then [78, 771] else
         [c])
      else
      if c < 231 then
        (if c = 210 then [79, 768] else if c = 211 then [79, 769] else
         if c = 212 then [79, 770] else if c = 213 then [79, 771] else
         if c = 214 then [79, 776] else if c = 217 then [85, 768] else
         if c = 218 then [85, 769] else if c = 219 then [85, 770] else
         if c = 220 then [85, 776] else if c = 221 then [89, 769] else
         if c = 224 then [97, 768] else if c = 225 then [97, 769] else
         if c = 226 then [97, 770] else if c = 227 then [97, 771] else
         if c = 228 then [97, 776] else if c = 229 then [97, 778] else
         [c])
      else
      if c < 250 then
        (if c = 231 then [99, 807] else if c = 232 then [101, 768] else
         if c = 233 then [101, 769] else if c = 234 then [101, 770] else
         if c = 235 then [101, 776] else if c = 236 then [105, 768] else
         if c = 237 then [105, 769] else if c = 238 then [105, 770] else
         if c = 239 then [105, 776] else if c = 241 then [110, 771] else
         if c = 242 then [111, 768] else if c = 243 then [111, 769] else
         if c = 244 then [111, 770] else if c = 245 then [111, 771] else
         if c = 246 then [111, 776] else if c = 249 then [117, 768] else
         [c])
      else
      if c < 267 then
        (if c = 250 then [117, 769] else if c = 251 then [117, 770] else
         if c = 252 then [117, 776] else if c = 253 then [121, 769] else
         if c = 255 then [121, 776] else if c = 256 then [65, 772] else
         if c = 257 then [97, 772] else if c = 258 then [65, 774] else
         if c = 259 then [97, 774] else if c = 260 then [65, 808] else
         if c = 261 then [97, 808] else if c = 262 then [67, 769] else
         if c = 263 then [99, 769] else if c = 264 then [67, 770] else
         if c = 265 then [99, 770] else if c = 266 then [67, 775] else
         [c])
      else
      if c < 285 then
        (if c = 267 then [99, 775] else if c = 268 then [67, 780] else
         if c = 269 then [99, 780] else if c = 270 then [68, 780] else
         if c = 271 then [100, 780] else if c = 274 then [69, 772] else
         if c = 275 then [101, 772] else if c = 276 then [69, 774] else
         if c = 277 then [101, 774] else if c = 278 then [69, 775] else
         if c = 279 then [101, 775] else if c = 280 then [69, 808] else
         if c = 281 then [101, 808] else if c = 282 then [69, 780] else
         if c = 283 then [101, 780] else if c = 284 then [71, 770] else
         [c])
      else
      if c < 303 then
        (if c = 285 then [103, 770] else if c = 286 then [71, 774] else
         if c = 287 then [103, 774] else if c = 288 then [71, 775] else
         if c = 289 then [103, 775] else if c = 290 then [71, 807] else
         if c = 291 then [103, 807] else if c = 292 then [72, 770] else
         if c = 293 then [104, 770] else if c = 296 then [73, 771] else
         if c = 297 then [105, 771] else if c = 298 then [73, 772] else
         if c = 299 then [105, 772] else if c = 300 then [73, 774] else
         if c = 301 then [105, 774] else if c = 302 then [73, 808] else
         [c])
      else
      if c < 327 then
        (if c = 303 then [105, 808] else if c = 304 then [73, 775] else
         if c = 308 then [74, 770] else if c = 309 then [106, 770] else
         if c = 310 then [75, 807] else if c = 311 then [107, 807] else
         if c = 313 then [76, 769] else if c = 314 then [108, 769] else
         if c = 315 then [76, 807] else if c = 316 then [108, 807] else
         if c = 317 then [76, 780] else if c = 318 then [108, 780] else
         if c = 323 then [78, 769] else if c = 324 then [110, 769] else
         if c = 325 then [78, 807] else if c = 326 then [110, 807] else
         [c])
      else
      if c < 348 then
        (if c = 327 then [78, 780] else if c = 328 then [110, 780] else
         if c = 332 then [79, 772] else if c = 333 then [111, 772] else
         if c = 334 then [79, 774] else if c = 335 then [111, 774] else
         if c = 336 then [79, 779] else if c = 337 then [111, 779] else
         if c = 340 then [82, 769] else if c = 341 then [114, 769] else
         if c = 342 then [82, 807] else if c = 343 then [114, 807] else
         if c = 344 then [82, 780] else if c = 345 then [114, 780] else
         if c = 346 then [83, 769] else if c = 347 then [115, 769] else
         [c])
      else
      if c < 366 then
        (if c = 348 then [83, 770] else if c = 349 then [115, 770] else
         if c = 350 then [83, 807] else if c = 351 then [115, 807] else
         if c = 352 then [83, 780] else if c = 353 then [115, 780] else
         if c = 354 then [84, 807] else if c = 355 then [116, 807] else
         if c = 356 then [84, 780] else if c = 357 then [116, 780] else
         if c = 360 then [85, 771] else if c = 361 then [117, 771] else
         if c = 362 then [85, 772] else if c = 363 then [117, 772] else
         if c = 364 then [85, 774] else if c = 365 then [117, 774] else
         [c])
      else
      if c < 382 then
        (if c = 366 then [85, 778] else if c = 367 then [117, 778] else
         if c = 368 then [85, 779] else if c = 369 then [117, 779] else
         if c = 370 then [85, 808] else if c = 371 then [117, 808] else
         if c = 372 then [87, 770] else if c = 373 then [119, 770] else
         if c = 374 then [89, 770] else if c = 375 then [121, 770] else
         if c = 376 then [89, 776] else if c = 377 then [90, 769] else
         if c = 378 then [122, 769] else if c = 379 then [90, 775] else
         if c = 380 then [122, 775] else if c = 381 then [90, 780] else
         [c])
      else
      if c < 7847 then
        (if c = 382 then [122, 780] else if c = 416 then [79, 795] else
         if c = 417 then [111, 795] else if c = 431 then [85, 795] else
         if c = 432 then [117, 795] else if c = 832 then [768] else
         if c = 833 then [769] else if c = 835 then [787] else
         if c = 836 then [776, 769] else if c = 7840 then [65, 803] else
         if c = 7841 then [97, 803] else if c = 7842 then [65, 777] else
         if c = 7843 then [97, 777] else if c = 7844 then [65, 770, 769] else
         if c = 7845 then [97, 770, 769] else if c = 7846 then [65, 770, 768] else
         [c])
      else
      if c < 7863 then
        (if c = 7847 then [97, 770, 768] else if c = 7848 then [65, 770, 777] else
         if c = 7849 then [97, 770, 777] else if c = 7850 then [65, 770, 771] else
         if c = 7851 then [97, 770, 771] else if c = 7852 then [65, 803, 770] else
         if c = 7853 then [97, 803, 770] else if c = 7854 then [65, 774, 769] else
         if c = 7855 then [97, 774, 769] else if c = 7856 then [65, 774, 768] else
         if c = 7857 then [97, 774, 768] else if c = 7858 then [65, 774, 777] else
         if c = 7859 then [97, 774, 777] else if c = 7860 then [65, 774, 771] else
         if c = 7861 then [97, 774, 771] else if c = 7862 then [65, 803, 774] else
         [c])
      else
      if c < 7879 then
        (if c = 7863 then [97, 803, 774] else if c = 7864 then [69, 803] else
         if c = 7865 then [101, 803] else if c = 7866 then [69, 777] else
         if c = 7867 then [101, 777] else if c = 7868 then [69, 771] else
         if c = 7869 then [101, 771] else if c = 7870 then [69, 770, 769] else
         if c = 7871 then [101, 770, 769] else if c = 7872 then [69, 770, 768] else
         if c = 7873 then [101, 770, 768] else if c = 7874 then [69, 770, 777] else
         if c = 7875 then [101, 770, 777] else if c = 7876 then [69, 770, 771] else
         if c = 7877 then [101, 770, 771] else if c = 7878 then [69, 803, 770] else
         [c])
      else
      if c < 7895 then
        (if c = 7879 then [101, 803, 770] else if c = 7880 then [73, 777] else
         if c = 7881 then [105, 777] else if c = 7882 then [73, 803] else
         if c = 7883 then [105, 803] else if c = 7884 then [79, 803] else
         if c = 7885 then [111, 803] else if c = 7886 then [79, 777] else
         if c = 7887 then [111, 777] else if c = 7888 then [79, 770, 769] else
         if c = 7889 then [111, 770, 769] else if c = 7890 then [79, 770, 768] else
         if c = 7891 then [111, 770, 768] else if c = 7892 then [79, 770, 777] else
         if c = 7893 then [111, 770, 777] else if c = 7894 then [79, 770, 771] else
         [c])
      else
      if c < 7911 then
        (if c = 7895 then [111, 770, 771] else if c = 7896 then [79, 803, 770] else
         if c = 7897 then [111, 803, 770] else if c = 7898 then [79, 795, 769] else
         if c = 7899 then [111, 795, 769] else if c = 7900 then [79, 795, 768] else
         if c = 7901 then [111, 795, 768] else if c = 7902 then [79, 795, 777] else
         if c = 7903 then [111, 795, 777] else if c = 7904 then [79, 795, 771] else
         if c = 7905 then [111, 795, 771] else if c = 7906 then [79, 795, 803] else
         if c = 7907 then [111, 795, 803] else if c = 7908 then [85, 803] else
         if c = 7909 then [117, 803] else if c = 7910 then [85, 777] else
         [c])
      else
      if c < 7927 then
        (if c = 7911 then [117, 777] else if c = 7912 then [85, 795, 769] else
         if c = 7913 then [117, 795, 769] else if c = 7914 then [85, 795, 768] else
         if c = 7915 then [117, 795, 768] else if c = 7916 then [85, 795, 777] else
         if c = 7917 then [117, 795, 777] else if c = 7918 then [85, 795, 771] else
         if c = 7919 then [117, 795, 771] else if c = 7920 then [85, 795, 803] else
         if c = 7921 then [117, 795, 803] else if c = 7922 then [89, 768] else
         if c = 7923 then [121, 768] else if c = 7924 then [89, 803] else
         if c = 7925 then [121, 803] else if c = 7926 then [89, 777] else
         [c])
      else
        (if c = 7927 then [121, 777] else if c = 7928 then [89, 771] else
         if c = 7929 then [121, 771] else
         [c]))"

definition lowercaseTable :: "nat \<Rightarrow> nat list" where
  "lowercaseTable c =
     (if c < 81 then
        (if c = 65 then [97] else if c = 66 then [98] else if c = 67 then [99] else
         if c = 68 then [100] else if c = 69 then [101] else if c = 70 then [102] else
         if c = 71 then [103] else if c = 72 then [104] else if c = 73 then [105] else
         if c = 74 then [106] else if c = 75 then [107] else if c = 76 then [108] else
         if c = 77 then [109] else if c = 78 then [110] else if c = 79 then [111] else
         if c = 80 then [112] else
         [c])
      else
      if c < 198 then
        (if c = 81 then [113] else if c = 82 then [114] else if c = 83 then [115] else
         if c = 84 then [116] else if c = 85 then [117] else if c = 86 then [118] else
         if c = 87 then [119] else if c = 88 then [120] else if c = 89 then [121] else
         if c = 90 then [122] else if c = 192 then [224] else if c = 193 then [225] else
         if c = 194 then [226] else if c = 195 then [227] else if c = 196 then [228] else
         if c = 197 then [229] else
         [c])
      else
      if c < 214 then
        (if c = 198 then [230] else if c = 199 then [231] else if c = 200 then [232] else
         if c = 201 then [233] else if c = 202 then [234] else if c = 203 then [235] else
         if c = 204 then [236] else if c = 205 then [237] else if c = 206 then [238] else
         if c = 207 then [239] else if c = 208 then [240] else if c = 209 then [241] else
         if c = 210 then [242] else if c = 211 then [243] else if c = 212 then [244] else
         if c = 213 then [245] else
         [c])
      else
      if c < 272 then
        (if c = 214 then [246] else if c = 216 then [248] else if c = 217 then [249] else
         if c = 218 then [250] else if c = 219 then [251] else if c = 220 then [252] else
         if c = 221 then [253] else if c = 222 then [254] else if c = 256 then [257] else
         if c = 258 then [259] else if c = 260 then [261] else if c = 262 then [263] else
         if c = 264 then [265] else if c = 266 then [267] else if c = 268 then [269] else
         if c = 270 then [271] else
         [c])
      else
      if c < 304 then
        (if c = 272 then [273] else if c = 274 then [275] else if c = 276 then [277] else
         if c = 278 then [279] else if c = 280 then [281] else if c = 282 then [283] else
         if c = 284 then [285] else if c = 286 then [287] else if c = 288 then [289] else
         if c = 290 then [291] else if c = 292 then [293] else if c = 294 then [295] else
         if c = 296 then [297] else if c = 298 then [299] else if c = 300 then [301] else
         if c = 302 then [303] else
         [c])
      else
      if c < 338 then
        (if c = 304 then [105, 775] else if c = 306 then [307] else if c = 308 then [309] else
         if c = 310 then [311] else if c = 313 then [314] else if c = 315 then [316] else
         if c = 317 then [318] else if c = 319 then [320] else if c = 321 then [322] else
         if c = 323 then [324] else if c = 325 then [326] else if c = 327 then [328] else
         if c = 330 then [331] else if c = 332 then [333] else if c = 334 then [335] else
         if c = 336 then [337] else
         [c])
      else
      if c < 370 then
        (if c = 338 then [339] else if c = 340 then [341] else if c = 342 then [343] else
         if c = 344 then [345] else if c = 346 then [347] else if c = 348 then [349] else
         if c = 350 then [351] else if c = 352 then [353] else if c = 354 then [355] else
         if c = 356 then [357] else if c = 358 then [359] else if c = 360 then [361] else
         if c = 362 then [363] else if c = 364 then [365] else if c = 366 then [367] else
         if c = 368 then [369] else
         [c])
      else
      if c < 7854 then
        (if c = 370 then [371] else if c = 372 then [373] else if c = 374 then [375] else
         if c = 376 then [255] else if c = 377 then [378] else if c = 379 then [380] else
         if c = 381 then [382] else if c = 416 then [417] else if c = 431 then [432] else
         if c = 7840 then [7841] else if c = 7842 then [7843] else if c = 7844 then [7845] else
         if c = 7846 then [7847] else if c = 7848 then [7849] else if c = 7850 then [7851] else
         if c = 7852 then [7853] else
         [c])
      else
      if c < 7886 then
        (if c = 7854 then [7855] else if c = 7856 then [7857] else if c = 7858 then [7859] else
         if c = 7860 then [7861] else if c = 7862 then [7863] else if c = 7864 then [7865] else
         if c = 7866 then [7867] else if c = 7868 then [7869] else if c = 7870 then [7871] else
         if c = 7872 then [7873] else if c = 7874 then [7875] else if c = 7876 then [7877] else
         if c = 7878 then [7879] else if c = 7880 then [7881] else if c = 7882 then [7883] else
         if c = 7884 then [7885] else
         [c])
      else
      if c < 7918 then
        (if c = 7886 then [7887] else if c = 7888 then [7889] else if c = 7890 then [7891] else
         if c = 7892 then [7893] else if c = 7894 then [7895] else if c = 7896 then [7897] else
         if c = 7898 then [7899] else if c = 7900 then [7901] else if c = 7902 then [7903] else
         if c = 7904 then [7905] else if c = 7906 then [7907] else if c = 7908 then [7909] else
         if c = 7910 then [7911] else if c = 7912 then [7913] else if c = 7914 then [7915] else
         if c = 7916 then [7917] else
         [c])
      else
        (if c = 7918 then [7919] else if c = 7920 then [7921] else if c = 7922 then [7923] else
         if c = 7924 then [7925] else if c = 7926 then [7927] else if c = 7928 then [7929] else
         [c]))"

definition combiningClassTable :: "nat \<Rightarrow> nat" where
  "combiningClassTable c =
     (if c < 784 then
        (if c = 768 then 230 else if c = 769 then 230 else if c = 770 then 230 else if c = 771 then 230 else
         if c = 772 then 230 else if c = 773 then 230 else if c = 774 then 230 else if c = 775 then 230 else
         if c = 776 then 230 else if c = 777 then 230 else if c = 778 then 230 else if c = 779 then 230 else
         if c = 780 then 230 else if c = 781 then 230 else if c = 782 then 230 else if c = 783 then 230 else
         0)
      else
      if c < 800 then
        (if c = 784 then 230 else if c = 785 then 230 else if c = 786 then 230 else if c = 787 then 230 else
         if c = 788 then 230 else if c = 789 then 232 else if c = 790 then 220 else if c = 791 then 220 else
         if c = 792 then 220 else if c = 793 then 220 else if c = 794 then 232 else if c = 795 then 216 else
         if c = 796 then 220 else if c = 797 then 220 else if c = 798 then 220 else if c = 799 then 220 else
         0)
      else
      if c < 816 then
        (if c = 800 then 220 else if c = 801 then 202 else if c = 802 then 202 else if c = 803 then 220 else
         if c = 804 then 220 else if c = 805 then 220 else if c = 806 then 220 else if c = 807 then 202 else
         if c = 808 then 202 else if c = 809 then 220 else if c = 810 then 220 else if c = 811 then 220 else
         if c = 812 then 220 else if c = 813 then 220 else if c = 814 then 220 else if c = 815 then 220 else
         0)
      else
      if c < 832 then
        (if c = 816 then 220 else if c = 817 then 220 else if c = 818 then 220 else if c = 819 then 220 else
         if c = 820 then 1 else if c = 821 then 1 else if c = 822 then 1 else if c = 823 then 1 else
         if c = 824 then 1 else if c = 825 then 220 else if c = 826 then 220 else if c = 827 then 220 else
         if c = 828 then 220 else if c = 829 then 230 else if c = 830 then 230 else if c = 831 then 230 else
         0)
      else
      if c < 849 then
        (if c = 832 then 230 else if c = 833 then 230 else if c = 834 then 230 else if c = 835 then 230 else
         if c = 836 then 230 else if c = 837 then 240 else if c = 838 then 230 else if c = 839 then 220 else
         if c = 840 then 220 else if c = 841 then 220 else if c = 842 then 230 else if c = 843 then 230 else
         if c = 844 then 230 else if c = 845 then 220 else if c = 846 then 220 else if c = 848 then 230 else
         0)
      else
      if c < 865 then
        (if c = 849 then 230 else if c = 850 then 230 else if c = 851 then 220 else if c = 852 then 220 else
         if c = 853 then 220 else if c = 854 then 220 else if c = 855 then 230 else if c = 856 then 232 else
         if c = 857 then 220 else if c = 858 then 220 else if c = 859 then 230 else if c = 860 then 233 else
         if c = 861 then 234 else if c = 862 then 234 else if c = 863 then 233 else if c = 864 then 234 else
         0)
      else
      if c < 1457 then
        (if c = 865 then 234 else if c = 866 then 233 else if c = 867 then 230 else if c = 868 then 230 else
         if c = 869 then 230 else if c = 870 then 230 else if c = 871 then 230 else if c = 872 then 230 else
         if c = 873 then 230 else if c = 874 then 230 else if c = 875 then 230 else if c = 876 then 230 else
         if c = 877 then 230 else if c = 878 then 230 else if c = 879 then 230 else if c = 1456 then 10 else
         0)
      else
        (if c = 1457 then 11 else if c = 1458 then 12 else if c = 1459 then 13 else if c = 1460 then 14 else
         if c = 1461 then 15 else if c = 1462 then 16 else if c = 1463 then 17 else if c = 1464 then 18 else
         if c = 1465 then 19 else
         0))"

definition casedTable :: "nat \<Rightarrow> bool" where
  "casedTable c =
     ((65 \<le> c \<and> c \<le> 90) \<or> (97 \<le> c \<and> c \<le> 122) \<or> c = 170 \<or> c = 181 \<or> c = 186 \<or>
      (192 \<le> c \<and> c \<le> 214) \<or> (216 \<le> c \<and> c \<le> 246) \<or> (248 \<le> c \<and> c \<le> 383) \<or>
      c = 416 \<or> c = 417 \<or> c = 431 \<or> c = 432 \<or> c = 837 \<or>
      c = 931 \<or> c = 962 \<or> c = 963 \<or> (7840 \<le> c \<and> c \<le> 7929))"

definition caseIgnorableTable :: "nat \<Rightarrow> bool" where
  "caseIgnorableTable c =
     (c = 39 \<or> c = 46 \<or> c = 58 \<or> c = 94 \<or> c = 96 \<or> c = 168 \<or> c = 173 \<or> c = 175 \<or>
      c = 180 \<or> c = 183 \<or> c = 184 \<or> (768 \<le> c \<and> c \<le> 879) \<or> (1456 \<le> c \<and> c \<le> 1465))"

definition unicodeTables :: UnicodeData where
  "unicodeTables =
     \<lparr>decomposition = decompositionTable, combiningClass = combiningClassTable,
      lowercase = lowercaseTable, cased = casedTable, caseIgnorable = caseIgnorableTable\<rparr>"

definition removeAccents :: "ustring \<Rightarrow> ustring" where
  "removeAccents str = removeAccentsWith unicodeTables str"

text \<open>The characters that have an entry in the first three tables.\<close>

definition tabled :: "nat \<Rightarrow> bool" where
  "tabled c =
     (c < 384 \<or> c = 416 \<or> c = 417 \<or> c = 431 \<or> c = 432 \<or> (768 \<le> c \<and> c < 880) \<or>
      (1456 \<le> c \<and> c < 1466) \<or> (7840 \<le> c \<and> c < 7930))"

subsection \<open>Notions for stating the properties of the normalizer\<close>

text \<open>
  The accent-stripped form of a string: every character is replaced by its
  decomposition, the combining marks U+0300-U+036F are left out and d-stroke becomes
  \<open>d\<close>. Nothing is reordered and no case is changed. Its lower-cased form is
  \<open>toLowerCase u (stripAccents u s)\<close>.
\<close>

definition stripAccents :: "UnicodeData \<Rightarrow> ustring \<Rightarrow> ustring" where
  "stripAccents u s =
     replaceUnit 272 68
       (replaceUnit 273 100
          (filter (\<lambda>c. \<not> isCombiningMark c) (concat (map (decomposition u) s))))"

text \<open>
  What is assumed of the database. A character is \<open>undecomposable\<close> when it is its own
  decomposition, \<open>plain\<close> when moreover it is neither a stripped mark nor a d-stroke,
  and a \<open>stableUnit\<close> when moreover it is its own lowercase and not capital sigma.
\<close>

definition undecomposable :: "UnicodeData \<Rightarrow> nat \<Rightarrow> bool" where
  "undecomposable u d = (decomposition u d = [d])"

definition plain :: "UnicodeData \<Rightarrow> nat \<Rightarrow> bool" where
  "plain u c = (decomposition u c = [c] \<and> \<not> isCombiningMark c \<and> c \<noteq> 272 \<and> c \<noteq> 273)"

definition stableUnit :: "UnicodeData \<Rightarrow> nat \<Rightarrow> bool" where
  "stableUnit u d =
     (decomposition u d = [d] \<and> lowercase u d = [d] \<and> \<not> isCombiningMark d \<and>
      d \<noteq> 272 \<and> d \<noteq> 273 \<and> d \<noteq> 931)"

definition lowersTo :: "UnicodeData \<Rightarrow> nat \<Rightarrow> nat \<Rightarrow> bool" where
  "lowersTo u c d = (stableUnit u d \<and> combiningClass u d = combiningClass u c)"

definition lowerStable :: "UnicodeData \<Rightarrow> nat \<Rightarrow> bool" where
  "lowerStable u c =
     (case lowercase u c of [d] \<Rightarrow> lowersTo u c d | _ \<Rightarrow> False)"

text \<open>
  For a single character \<open>c\<close>:
  the characters of its decomposition do not decompose further;
  if it is undecomposable and survives the stripping, its lowercase is a single
  character of the same class that is stable;
  if it is a stripped mark of class 0, it is U+034F (combining grapheme joiner);
  U+034F and capital sigma occur in no decomposition but their own;
  if its class is not 0, it is case-ignorable or not cased.
\<close>

definition unitFacts :: "UnicodeData \<Rightarrow> nat \<Rightarrow> bool" where
  "unitFacts u c =
     (list_all (undecomposable u) (decomposition u c) \<and>
      (decomposition u c = [c] \<and> \<not> isCombiningMark c \<and> c \<noteq> 272 \<and> c \<noteq> 273 \<and> c \<noteq> 931
         \<longrightarrow> lowerStable u c) \<and>
      (isCombiningMark c \<and> combiningClass u c = 0 \<longrightarrow> c = 847) \<and>
      (847 \<in> set (decomposition u c) \<longrightarrow> c = 847) \<and>
      (931 \<in> set (decomposition u c) \<longrightarrow> c = 931) \<and>
      (combiningClass u c \<noteq> 0 \<longrightarrow> caseIgnorable u c \<or> \<not> cased u c))"

text \<open>
  For the database: the above for every character; \<open>D\<close> and \<open>d\<close> are undecomposable;
  they, the two d-strokes and the three sigmas have class 0; the two small sigmas are
  stable. The Unicode Character Database has these properties.
\<close>

definition unicodeFacts :: "UnicodeData \<Rightarrow> bool" where
  "unicodeFacts u =
     ((\<forall>c. unitFacts u c) \<and>
      decomposition u 68 = [68] \<and> decomposition u 100 = [100] \<and>
      combiningClass u 272 = 0 \<and> combiningClass u 273 = 0 \<and>
      combiningClass u 68 = 0 \<and> combiningClass u 100 = 0 \<and>
      stableUnit u 962 \<and> stableUnit u 963 \<and>
      combiningClass u 931 = 0 \<and> combiningClass u 962 = 0 \<and> combiningClass u 963 = 0)"

text \<open>
  A string is in canonical order when no character of class other than 0 is
  followed by one of a smaller class other than 0.
\<close>

fun classesOrdered :: "nat list \<Rightarrow> bool" where
  "classesOrdered [] = True"
| "classesOrdered [k] = True"
| "classesOrdered (k # l # ks) = (\<not> (k \<noteq> 0 \<and> l \<noteq> 0 \<and> l < k) \<and> classesOrdered (l # ks))"

definition ordered :: "UnicodeData \<Rightarrow> ustring \<Rightarrow> bool" where
  "ordered u s = classesOrdered (map (combiningClass u) s)"

section \<open>View composer (App.tsx)\<close>

text \<open>\<open>s.includes(q)\<close>: \<open>q\<close> occurs in \<open>s\<close> as a contiguous part.\<close>

fun startsWith :: "ustring \<Rightarrow> ustring \<Rightarrow> bool" where
  "startsWith s [] = True"
| "startsWith [] (q # qs) = False"
| "startsWith (x # xs) (q # qs) = (x = q \<and> startsWith xs qs)"

fun includesStr :: "ustring \<Rightarrow> ustring \<Rightarrow> bool" where
  "includesStr [] q = (q = [])"
| "includesStr (x # xs) q = (startsWith (x # xs) q \<or> includesStr xs q)"

text \<open>
  The category literals of the source, with their diacritics: \<open>Tat ca\<close> (all),
  \<open>Dang theo doi\<close> (following), \<open>Lich su\<close> (history).
\<close>

definition categoryAll :: ustring where
  "categoryAll = [84, 7845, 116, 32, 99, 7843]"

definition categoryFollowing :: ustring where
  "categoryFollowing = [272, 97, 110, 103, 32, 116, 104, 101, 111, 32, 100, 245, 105]"

definition categoryHistory :: ustring where
  "categoryHistory = [76, 7883, 99, 104, 32, 115, 7917]"

text \<open>The callback of \<open>comics.filter\<close>, lines 194-224.\<close>

definition matchesSearch :: "ustring \<Rightarrow> SearchScope \<Rightarrow> Comic \<Rightarrow> bool" where
  "matchesSearch query scope comic =
     (let normalizedQuery = removeAccents query
      in if normalizedQuery = [] then True
         else if scope = AUTHOR then includesStr (removeAccents (author comic)) normalizedQuery
         else if scope = TITLE then
           includesStr (removeAccents (title_comic comic)) normalizedQuery
         else
           (includesStr (removeAccents (title_comic comic)) normalizedQuery \<or>
            includesStr (removeAccents (author comic)) normalizedQuery \<or>
            list_ex (\<lambda>tag. includesStr (removeAccents tag) normalizedQuery) (tags comic)))"

definition matchesCategory :: "ustring \<Rightarrow> User option \<Rightarrow> Comic \<Rightarrow> bool" where
  "matchesCategory cat u comic =
     (if cat = categoryAll then True
      else if cat = categoryFollowing then
        (case u of
           None \<Rightarrow> False
         | Some usr \<Rightarrow>
             (case followedComics usr of None \<Rightarrow> False | Some fs \<Rightarrow> id_comic comic \<in> set fs))
      else if cat = categoryHistory then lastRead comic \<noteq> None
      else cat \<in> set (tags comic))"

text \<open>
  The comparator of \<open>sort\<close>, lines 224-235. \<open>readTime\<close> is
  \<open>lastRead?.timestamp || 0\<close>. \<open>localeCompare\<close> belongs to the engine and its locale and
  is a parameter.
\<close>

definition readTime :: "Comic \<Rightarrow> int" where
  "readTime c = orZero (map_option timestamp (lastRead c))"

definition compareComics ::
  "(ustring \<Rightarrow> ustring \<Rightarrow> int) \<Rightarrow> ustring \<Rightarrow> SortOption \<Rightarrow> Comic \<Rightarrow> Comic \<Rightarrow> int" where
  "compareComics localeCompare cat opt a b =
     (if cat = categoryHistory then readTime b - readTime a
      else if opt = VIEWS then orZero (viewCount_comic b) - orZero (viewCount_comic a)
      else if opt = AZ then localeCompare (title_comic a) (title_comic b)
      else updatedAt b - updatedAt a)"

text \<open>
  \<open>Array.prototype.sort\<close> is built into the engine. Modelled from the ECMAScript
  standard, which requires the sort to be stable: with a comparator that is
  consistent, as the numeric differences above are, the result is determined, and it
  is the one that this insertion sort computes.
\<close>

fun insertBy :: "('a \<Rightarrow> 'a \<Rightarrow> int) \<Rightarrow> 'a \<Rightarrow> 'a list \<Rightarrow> 'a list" where
  "insertBy cmp x [] = [x]"
| "insertBy cmp x (y # ys) = (if cmp x y \<le> 0 then x # y # ys else y # insertBy cmp x ys)"

definition sortBy :: "('a \<Rightarrow> 'a \<Rightarrow> int) \<Rightarrow> 'a list \<Rightarrow> 'a list" where
  "sortBy cmp xs = foldr (insertBy cmp) xs []"

text \<open>\<open>filteredComics\<close>, lines 194-235.\<close>

definition filteredComics :: "(ustring \<Rightarrow> ustring \<Rightarrow> int) \<Rightarrow> App \<Rightarrow> Comic list" where
  "filteredComics localeCompare s =
     sortBy (compareComics localeCompare (selectedCategory s) (sortOption s))
       (filter (\<lambda>comic. matchesSearch (searchQuery s) (searchScope s) comic \<and>
                        matchesCategory (selectedCategory s) (user s) comic)
          (comics s))"

text \<open>Three comics for the history view: read at time 5, read at time 9, never read.\<close>

definition readComic :: "string \<Rightarrow> int option \<Rightarrow> Comic" where
  "readComic i t = exampleComic\<lparr>id_comic := i,
     lastRead := map_option (\<lambda>ts. \<lparr>chapterId = ''ch1'', chapterTitle = ascii ''Chapter 1'',
                                     pageIndex = 0, timestamp = ts\<rparr>) t\<rparr>"

definition historyApp :: App where
  "historyApp = initialApp\<lparr>comics := [readComic ''n'' None, readComic ''a'' (Some 5),
                                       readComic ''b'' (Some 9)],
                            selectedCategory := categoryHistory, sortOption := AZ\<rparr>"

section \<open>Properties of the rank engine\<close>

lemma levelLoop_le: "levelLoop e n \<le> n"
  by (induction n) auto

lemma levelLoop_reached:
  "EXP_THRESHOLDS ! 0 \<le> e \<Longrightarrow> EXP_THRESHOLDS ! levelLoop e n \<le> e"
  by (induction n) auto

lemma levelLoop_highest:
  "i \<le> n \<Longrightarrow> EXP_THRESHOLDS ! i \<le> e \<Longrightarrow> i \<le> levelLoop e n"
  by (induction n) (auto simp: le_Suc_eq)

lemma thresholds_nonneg: "i < 10 \<Longrightarrow> 0 \<le> EXP_THRESHOLDS ! i"
  by (simp add: EXP_THRESHOLDS_def nth_Cons')

lemma levelLoop_negative: "e < 0 \<Longrightarrow> n < 10 \<Longrightarrow> levelLoop e n = 0"
proof (induction n)
  case 0
  then show ?case by simp
next
  case (Suc n)
  from Suc.prems have "0 \<le> EXP_THRESHOLDS ! Suc n"
    by (intro thresholds_nonneg) simp
  with Suc show ?case by simp
qed

lemma rankLevel_cases:
  "rankLevel e =
     (if 4500 \<le> e then 9 else if 3600 \<le> e then 8 else if 2800 \<le> e then 7
      else if 2100 \<le> e then 6 else if 1500 \<le> e then 5 else if 1000 \<le> e then 4
      else if 600 \<le> e then 3 else if 300 \<le> e then 2 else if 100 \<le> e then 1 else 0)"
  by (simp add: rankLevel_def EXP_THRESHOLDS_def eval_nat_numeral)

lemma rankLevel_less: "rankLevel e < 10"
  using levelLoop_le [of e 9] by (simp add: rankLevel_def EXP_THRESHOLDS_def)

lemma rankLevel_clamp: "rankLevel e = rankLevel (max 0 e)"
proof (cases "e < 0")
  case True
  then have "rankLevel e = 0"
    by (simp add: rankLevel_def EXP_THRESHOLDS_def levelLoop_negative)
  moreover have "rankLevel 0 = 0"
    by (simp add: rankLevel_cases)
  ultimately show ?thesis using True by (simp add: max_def)
next
  case False
  then show ?thesis by (simp add: max_def)
qed

lemma rankLevel_Max:
  assumes "0 \<le> e"
  shows "Max {i. i < length EXP_THRESHOLDS \<and> EXP_THRESHOLDS ! i \<le> e} = rankLevel e"
proof (rule Max_eqI)
  show "finite {i. i < length EXP_THRESHOLDS \<and> EXP_THRESHOLDS ! i \<le> e}" by simp
next
  fix y assume "y \<in> {i. i < length EXP_THRESHOLDS \<and> EXP_THRESHOLDS ! i \<le> e}"
  then have "y \<le> length EXP_THRESHOLDS - 1" and "EXP_THRESHOLDS ! y \<le> e" by auto
  then show "y \<le> rankLevel e"
    unfolding rankLevel_def by (rule levelLoop_highest)
next
  from assms have "EXP_THRESHOLDS ! 0 \<le> e" by (simp add: EXP_THRESHOLDS_def)
  then have "EXP_THRESHOLDS ! rankLevel e \<le> e"
    unfolding rankLevel_def by (rule levelLoop_reached)
  moreover have "rankLevel e < length EXP_THRESHOLDS"
    using rankLevel_less [of e] by (simp add: EXP_THRESHOLDS_def)
  ultimately show "rankLevel e \<in> {i. i < length EXP_THRESHOLDS \<and> EXP_THRESHOLDS ! i \<le> e}"
    by simp
qed

lemma titles_length: "s \<noteq> NONE \<Longrightarrow> length (RANK_TITLES s) = 10"
  by (cases s) simp_all

lemma titles_nonempty: "s \<noteq> NONE \<Longrightarrow> i < 10 \<Longrightarrow> RANK_TITLES s ! i \<noteq> []"
  by (cases s) (simp_all add: nth_Cons')

lemma title_present: "s \<noteq> NONE \<Longrightarrow> \<not> titleMissing (RANK_TITLES s) (rankLevel e)"
  using rankLevel_less [of e] by (simp add: titleMissing_def titles_length titles_nonempty)

text \<open>
  C5. With system \<open>NONE\<close> (given or by default) \<open>getUserRank\<close> returns the empty string
  for every experience value. With any other system it returns the title of that
  system at the highest index whose threshold, in the table
  \<open>[0,100,300,600,1000,1500,2100,2800,3600,4500]\<close>, is at most the experience, where a
  negative or omitted experience counts as 0.
\<close>

theorem getUserRank_highest_threshold:
  "getUserRank exp_arg (Some NONE) = [] \<and> getUserRank exp_arg None = [] \<and>
   EXP_THRESHOLDS = [0, 100, 300, 600, 1000, 1500, 2100, 2800, 3600, 4500] \<and>
   (system \<noteq> NONE \<longrightarrow>
      getUserRank exp_arg (Some system) =
        RANK_TITLES system !
          Max {i. i < length EXP_THRESHOLDS \<and>
                  EXP_THRESHOLDS ! i \<le> max 0 (expOrDefault exp_arg)})"
proof -
  have "rankLevel (expOrDefault exp_arg) =
        Max {i. i < length EXP_THRESHOLDS \<and>
                EXP_THRESHOLDS ! i \<le> max 0 (expOrDefault exp_arg)}"
    using rankLevel_Max [of "max 0 (expOrDefault exp_arg)"]
      rankLevel_clamp [of "expOrDefault exp_arg"] by simp
  then show ?thesis
    by (simp add: getUserRank_def titleOrFallback_def title_present EXP_THRESHOLDS_def)
qed

theorem getUserRank_highest_threshold_witness:
  "GAME \<noteq> NONE \<and>
   getUserRank (Some 250) (Some GAME) =
     RANK_TITLES GAME !
       Max {i. i < length EXP_THRESHOLDS \<and>
               EXP_THRESHOLDS ! i \<le> max 0 (expOrDefault (Some 250))} \<and>
   getUserRank (Some 250) (Some GAME) = [272, 7891, 110, 103] \<and>
   getUserRank (Some (- 5)) (Some GAME) = [84, 7853, 112, 32, 83, 7921] \<and>
   getUserRank None (Some GAME) = [84, 7853, 112, 32, 83, 7921]"
proof -
  have "getUserRank (Some 250) (Some GAME) = [272, 7891, 110, 103]"
    by (simp add: getUserRank_def titleOrFallback_def titleMissing_def rankLevel_cases
        expOrDefault_def)
  moreover have "getUserRank (Some (- 5)) (Some GAME) = [84, 7853, 112, 32, 83, 7921]"
    by (simp add: getUserRank_def titleOrFallback_def titleMissing_def rankLevel_cases
        expOrDefault_def)
  moreover have "getUserRank None (Some GAME) = [84, 7853, 112, 32, 83, 7921]"
    by (simp add: getUserRank_def titleOrFallback_def titleMissing_def rankLevel_cases
        expOrDefault_def)
  ultimately show ?thesis
    using getUserRank_highest_threshold [of "Some 250" GAME] by simp
qed

text \<open>
  C10. For every experience value, negative ones and an omitted one included, and
  every system other than \<open>NONE\<close>, the level computed by \<open>getUserRank\<close> is between 0
  and 9, the title table of the system has exactly 10 entries, one for each
  threshold, the entry at the level is present and not empty, so the fallback label
  is not taken, and the result is that entry.
\<close>

theorem getUserRank_fallback_unreachable:
  "system \<noteq> NONE \<Longrightarrow>
   length (RANK_TITLES system) = 10 \<and> length EXP_THRESHOLDS = 10 \<and>
   rankLevel (expOrDefault exp_arg) < 10 \<and>
   \<not> titleMissing (RANK_TITLES system) (rankLevel (expOrDefault exp_arg)) \<and>
   getUserRank exp_arg (Some system) =
     RANK_TITLES system ! rankLevel (expOrDefault exp_arg)"
  by (simp add: getUserRank_def titleOrFallback_def title_present titles_length
      rankLevel_less EXP_THRESHOLDS_def)

theorem getUserRank_fallback_unreachable_witness:
  "MAGE \<noteq> NONE \<and>
   length (RANK_TITLES MAGE) = 10 \<and> length EXP_THRESHOLDS = 10 \<and>
   rankLevel (expOrDefault (Some (- 40))) < 10 \<and>
   \<not> titleMissing (RANK_TITLES MAGE) (rankLevel (expOrDefault (Some (- 40)))) \<and>
   getUserRank (Some (- 40)) (Some MAGE) =
     RANK_TITLES MAGE ! rankLevel (expOrDefault (Some (- 40)))"
  using getUserRank_fallback_unreachable [of MAGE "Some (- 40)"] by simp

section \<open>Properties of the comment tree engine\<close>

lemma size_replies: "replies c = Some rs \<Longrightarrow> size_list size rs < size c"
  by (cases c) simp

lemma forest_induct [case_names Nil Cons]:
  assumes "P []"
    and "\<And>c rest. P (orEmpty (replies c)) \<Longrightarrow> P rest \<Longrightarrow> P (c # rest)"
  shows "P f"
proof (induction f rule: measure_induct_rule [where f = "size_list size"])
  case (less f)
  show ?case
  proof (cases f)
    case Nil
    then show ?thesis using assms(1) by simp
  next
    case (Cons c rest)
    have "size_list size (orEmpty (replies c)) < size_list size f"
      using Cons size_replies [of c] by (cases "replies c") (auto simp: orEmpty_def)
    moreover have "size_list size rest < size_list size f" using Cons by simp
    ultimately show ?thesis using less assms(2) Cons by blast
  qed
qed

lemma addReply_match:
  "id_comment c = pid \<Longrightarrow>
   addReplyRecursively (c # rest) pid n =
     (withReplies c (Some (orEmpty (replies c) @ [n])) # rest, True)"
  by (cases c) simp

lemma addReply_leaf:
  "id_comment c \<noteq> pid \<Longrightarrow> orEmpty (replies c) = [] \<Longrightarrow>
   addReplyRecursively (c # rest) pid n =
     (c # fst (addReplyRecursively rest pid n), snd (addReplyRecursively rest pid n))"
  by (cases c) (simp add: orEmpty_def split: option.splits list.splits prod.splits)

lemma addReply_descend:
  "id_comment c \<noteq> pid \<Longrightarrow> orEmpty (replies c) \<noteq> [] \<Longrightarrow>
   addReplyRecursively (c # rest) pid n =
     (if snd (addReplyRecursively (orEmpty (replies c)) pid n)
      then (withReplies c (Some (fst (addReplyRecursively (orEmpty (replies c)) pid n))) # rest, True)
      else (withReplies c (Some (fst (addReplyRecursively (orEmpty (replies c)) pid n))) #
              fst (addReplyRecursively rest pid n),
            snd (addReplyRecursively rest pid n)))"
  by (cases c) (simp add: orEmpty_def split: option.splits list.splits prod.splits bool.splits)

declare addReplyRecursively.simps(2) [simp del] preorder.simps(2) [simp del]
  preorderPaths.simps(2) [simp del] toggleLikeInComments.simps [simp del]

lemma withReplies_same [simp]: "withReplies c (replies c) = c"
  by (cases c) simp

lemma withReplies_orEmpty: "orEmpty (replies c) \<noteq> [] \<Longrightarrow> withReplies c (Some (orEmpty (replies c))) = c"
  by (cases c) (auto simp: orEmpty_def split: option.splits)

lemma preorder_Cons: "preorder (c # cs) = c # preorder (orEmpty (replies c)) @ preorder cs"
  by (cases c) (simp add: preorder.simps(2) orEmpty_def split: option.splits)

lemma not_found_unchanged:
  "\<not> snd (addReplyRecursively f pid n) \<Longrightarrow> fst (addReplyRecursively f pid n) = f"
proof (induction f rule: forest_induct)
  case Nil
  then show ?case by simp
next
  case (Cons c rest)
  consider (m) "id_comment c = pid" | (l) "id_comment c \<noteq> pid" "orEmpty (replies c) = []"
    | (d) "id_comment c \<noteq> pid" "orEmpty (replies c) \<noteq> []" by blast
  then show ?case
  proof cases
    case m
    then show ?thesis using Cons.prems by (simp add: addReply_match)
  next
    case l
    then show ?thesis using Cons by (simp add: addReply_leaf)
  next
    case d
    then show ?thesis using Cons by (simp add: addReply_descend withReplies_orEmpty split: if_splits)
  qed
qed

lemma found_iff:
  "snd (addReplyRecursively f pid n) \<longleftrightarrow> (\<exists>c \<in> set (preorder f). id_comment c = pid)"
proof (induction f rule: forest_induct)
  case Nil
  then show ?case by simp
next
  case (Cons c rest)
  consider (m) "id_comment c = pid" | (l) "id_comment c \<noteq> pid" "orEmpty (replies c) = []"
    | (d) "id_comment c \<noteq> pid" "orEmpty (replies c) \<noteq> []" by blast
  then show ?case
  proof cases
    case m
    then show ?thesis by (simp add: addReply_match preorder_Cons)
  next
    case l
    then show ?thesis using Cons by (simp add: addReply_leaf preorder_Cons)
  next
    case d
    then show ?thesis using Cons by (auto simp add: addReply_descend preorder_Cons)
  qed
qed

lemma toggle_Nil [simp]: "toggleLikeInComments [] cid uid = []"
  by (simp add: toggleLikeInComments.simps)

lemma toggle_Cons:
  "toggleLikeInComments (c # cs) cid uid =
     toggleOne cid uid c # toggleLikeInComments cs cid uid"
  apply (subst toggleLikeInComments.simps)
  apply (subst (2) toggleLikeInComments.simps)
  apply (cases c)
  apply (simp add: toggleOne_def orEmpty_def Let_def split: option.splits list.splits)
  done

lemma toggle_eq_Nil [simp]: "toggleLikeInComments f cid uid = [] \<longleftrightarrow> f = []"
  by (cases f) (simp_all add: toggle_Cons)

lemma toggleOne_twice_view:
  assumes "map (viewComment cid) (toggleLikeInComments (toggleLikeInComments (orEmpty (replies c)) cid uid) cid uid)
           = map (viewComment cid) (orEmpty (replies c))"
  shows "viewComment cid (toggleOne cid uid (toggleOne cid uid c)) = viewComment cid c"
proof (cases c)
  case (Comment i u n a t r ct rs ls ca)
  show ?thesis
  proof (cases "i = cid")
    case True
    then show ?thesis using Comment
      by (auto simp: toggleOne_def orEmpty_def)
  next
    case False
    then show ?thesis using Comment assms
      by (cases rs) (auto simp: toggleOne_def orEmpty_def)
  qed
qed

lemma preorderPaths_Cons:
  "preorderPaths k (c # cs) =
     ([k], c) # map (\<lambda>(p, d). (k # p, d)) (preorderPaths 0 (orEmpty (replies c))) @
     preorderPaths (Suc k) cs"
  by (cases c) (simp add: preorderPaths.simps(2) orEmpty_def split: option.splits)

lemma map_snd_preorderPaths: "map snd (preorderPaths k f) = preorder f"
proof (induction f arbitrary: k rule: forest_induct)
  case Nil
  show ?case by simp
next
  case (Cons c rest)
  have "map snd (map (\<lambda>(p, d). (k # p, d)) (preorderPaths 0 (orEmpty (replies c))))
        = map snd (preorderPaths 0 (orEmpty (replies c)))"
    by (simp add: case_prod_unfold comp_def)
  then show ?case using Cons by (simp add: preorderPaths_Cons preorder_Cons)
qed

lemma find_map_path:
  "find (\<lambda>(p, d). id_comment d = pid) (map (\<lambda>(p, d). (k # p, d)) xs)
   = map_option (\<lambda>(p, d). (k # p, d)) (find (\<lambda>(p, d). id_comment d = pid) xs)"
  by (induction xs) auto

lemma find_append_paths:
  "find P (xs @ ys) = (case find P xs of None \<Rightarrow> find P ys | Some x \<Rightarrow> Some x)"
  by (induction xs) auto

lemma findPath_Nil [simp]: "findPath k [] pid = None"
  by (simp add: findPath_def)

lemma findPath_Cons:
  "findPath k (c # cs) pid =
     (if id_comment c = pid then Some [k]
      else case findPath 0 (orEmpty (replies c)) pid of
             Some q \<Rightarrow> Some (k # q)
           | None \<Rightarrow> findPath (Suc k) cs pid)"
  by (auto simp: findPath_def preorderPaths_Cons find_append_paths find_map_path
      split: option.splits)

lemma findPath_None_iff:
  "findPath k f pid = None \<longleftrightarrow> (\<forall>c \<in> set (preorder f). id_comment c \<noteq> pid)"
proof -
  have "findPath k f pid = None \<longleftrightarrow> (\<forall>x \<in> set (preorderPaths k f). id_comment (snd x) \<noteq> pid)"
    by (fastforce simp: findPath_def find_None_iff)
  also have "\<dots> \<longleftrightarrow> (\<forall>c \<in> set (map snd (preorderPaths k f)). id_comment c \<noteq> pid)"
    by simp
  finally show ?thesis by (simp only: map_snd_preorderPaths)
qed

lemma findPath_nonempty: "findPath k f pid = Some p \<Longrightarrow> p \<noteq> []"
  by (induction f arbitrary: k) (auto simp: findPath_Cons split: if_splits option.splits)

lemma addReply_at_path:
  "findPath k f pid = Some p \<Longrightarrow> length pre = k \<Longrightarrow>
   snd (addReplyRecursively f pid n) \<and>
   pre @ fst (addReplyRecursively f pid n) = appendReplyAt p n (pre @ f)"
proof (induction f arbitrary: k p pre rule: forest_induct)
  case Nil
  then show ?case by simp
next
  case (Cons c rest)
  show ?case
  proof (cases "id_comment c = pid")
    case True
    with Cons.prems have "p = [k]" by (simp add: findPath_Cons)
    then show ?thesis using True Cons.prems(2)
      by (simp add: addReply_match nth_append list_update_append)
  next
    case False
    show ?thesis
    proof (cases "findPath 0 (orEmpty (replies c)) pid")
      case (Some q)
      with False Cons.prems have p: "p = k # q" by (simp add: findPath_Cons)
      from Some have ne: "orEmpty (replies c) \<noteq> []" by auto
      from Some obtain q0 qs where q: "q = q0 # qs"
        using findPath_nonempty [OF Some] by (cases q) auto
      from Cons.IH(1) [OF Some, of "[]"]
      have ih: "snd (addReplyRecursively (orEmpty (replies c)) pid n)"
        "fst (addReplyRecursively (orEmpty (replies c)) pid n)
           = appendReplyAt q n (orEmpty (replies c))" by simp_all
      show ?thesis using False ne ih p q Cons.prems(2)
        by (simp add: addReply_descend nth_append list_update_append)
    next
      case None
      with False Cons.prems have rest: "findPath (Suc k) rest pid = Some p"
        by (simp add: findPath_Cons)
      from None have nf: "\<not> snd (addReplyRecursively (orEmpty (replies c)) pid n)"
        by (simp add: found_iff findPath_None_iff)
      then have same: "fst (addReplyRecursively (orEmpty (replies c)) pid n) = orEmpty (replies c)"
        by (rule not_found_unchanged)
      from Cons.IH(2) [OF rest, of "pre @ [c]"] Cons.prems(2)
      have ih: "snd (addReplyRecursively rest pid n)"
        "pre @ c # fst (addReplyRecursively rest pid n) = appendReplyAt p n (pre @ c # rest)"
        by simp_all
      have "addReplyRecursively (c # rest) pid n =
              (c # fst (addReplyRecursively rest pid n), snd (addReplyRecursively rest pid n))"
      proof (cases "orEmpty (replies c) = []")
        case True
        then show ?thesis using False by (simp add: addReply_leaf)
      next
        case ne: False
        then show ?thesis using False nf same
          by (simp add: addReply_descend withReplies_orEmpty)
      qed
      then show ?thesis using ih by simp
    qed
  qed
qed

lemma preorder_append: "preorder (xs @ ys) = preorder xs @ preorder ys"
  by (induction xs) (simp_all add: preorder_Cons)

lemma replies_withReplies [simp]: "replies (withReplies c rs) = rs"
  by (cases c) simp

lemma id_withReplies [simp]: "id_comment (withReplies c rs) = id_comment c"
  by (cases c) simp

lemma withReplies_twice [simp]: "withReplies (withReplies c rs) rs' = withReplies c rs'"
  by (cases c) simp

lemma addReply_preorder:
  "snd (addReplyRecursively f pid n) \<Longrightarrow>
   \<exists>ys zs. map stripReplies (preorder f) = ys @ zs \<and>
           map stripReplies (preorder (fst (addReplyRecursively f pid n)))
             = ys @ map stripReplies (preorder [n]) @ zs"
proof (induction f rule: forest_induct)
  case Nil
  then show ?case by simp
next
  case (Cons c rest)
  let ?L = "map stripReplies"
  note stripReplies_def [simp]
  let ?R = "orEmpty (replies c)"
  show ?case
  proof (cases "id_comment c = pid")
    case True
    have "?L (preorder (c # rest)) = ?L (c # preorder ?R) @ ?L (preorder rest)"
      by (simp add: preorder_Cons)
    moreover have "?L (preorder (fst (addReplyRecursively (c # rest) pid n)))
        = ?L (c # preorder ?R) @ ?L (preorder [n]) @ ?L (preorder rest)"
      using True by (simp add: addReply_match preorder_Cons preorder_append orEmpty_def)
    ultimately show ?thesis by blast
  next
    case False
    show ?thesis
    proof (cases "snd (addReplyRecursively ?R pid n)")
      case True
      then have ne: "?R \<noteq> []" by auto
      from Cons.IH(1) [OF True] obtain ys zs where
        "?L (preorder ?R) = ys @ zs"
        "?L (preorder (fst (addReplyRecursively ?R pid n))) = ys @ ?L (preorder [n]) @ zs"
        by blast
      then have "?L (preorder (c # rest)) = (withReplies c None # ys) @ (zs @ ?L (preorder rest))"
        and "?L (preorder (fst (addReplyRecursively (c # rest) pid n)))
             = (withReplies c None # ys) @ ?L (preorder [n]) @ (zs @ ?L (preorder rest))"
        using False True ne by (simp_all add: addReply_descend preorder_Cons orEmpty_def)
      then show ?thesis by blast
    next
      case nf: False
      then have same: "fst (addReplyRecursively ?R pid n) = ?R" by (rule not_found_unchanged)
      have eq: "addReplyRecursively (c # rest) pid n =
              (c # fst (addReplyRecursively rest pid n), snd (addReplyRecursively rest pid n))"
      proof (cases "?R = []")
        case True
        then show ?thesis using False by (simp add: addReply_leaf)
      next
        case ne: False
        then show ?thesis using False nf same
          by (simp add: addReply_descend withReplies_orEmpty)
      qed
      with Cons.prems have "snd (addReplyRecursively rest pid n)" by simp
      from Cons.IH(2) [OF this] obtain ys zs where
        "?L (preorder rest) = ys @ zs"
        "?L (preorder (fst (addReplyRecursively rest pid n))) = ys @ ?L (preorder [n]) @ zs"
        by blast
      then have "?L (preorder (c # rest)) = (?L (c # preorder ?R) @ ys) @ zs"
        and "?L (preorder (fst (addReplyRecursively (c # rest) pid n)))
             = (?L (c # preorder ?R) @ ys) @ ?L (preorder [n]) @ zs"
        using eq by (simp_all add: preorder_Cons)
      then show ?thesis by blast
    qed
  qed
qed

lemma stripReplies_withReplies [simp]: "stripReplies (withReplies c rs) = stripReplies c"
  by (simp add: stripReplies_def)

lemma countComments_leaf: "orEmpty (replies n) = [] \<Longrightarrow> countComments [n] = 1"
  by (simp add: countComments_def preorder_Cons)

text \<open>
  C4. When the forest has a comment with id \<open>parentId\<close>, \<open>addReplyRecursively\<close>
  returns true and leaves the forest with the new comment appended to the replies
  of the first such comment in pre-order (an absent replies list counts as empty),
  everything else as it was. The number of comments of the forest grows by the
  number of comments of the new one, which is 1 for a new comment without replies
  (every comment the program creates has \<open>replies: []\<close>). The comments of
  the old forest keep their pre-order: the new one is inserted between them.
\<close>

theorem addReplyRecursively_first_match:
  assumes "\<exists>c \<in> set (preorder forest). id_comment c = parentId"
  shows "\<exists>p. firstMatch forest parentId = Some p \<and>
           addReplyRecursively forest parentId newReply =
             (appendReplyAt p newReply forest, True) \<and>
           countComments (appendReplyAt p newReply forest) =
             countComments forest + countComments [newReply] \<and>
           (orEmpty (replies newReply) = [] \<longrightarrow>
              countComments (appendReplyAt p newReply forest) = countComments forest + 1) \<and>
           (\<exists>ys zs. map stripReplies (preorder forest) = ys @ zs \<and>
              map stripReplies (preorder (appendReplyAt p newReply forest)) =
                ys @ map stripReplies (preorder [newReply]) @ zs)"
proof -
  from assms obtain p where p: "findPath 0 forest parentId = Some p"
    using findPath_None_iff [of 0 forest parentId] by (cases "findPath 0 forest parentId") auto
  from addReply_at_path [OF p, of "[]" newReply]
  have found: "snd (addReplyRecursively forest parentId newReply)"
    and res: "fst (addReplyRecursively forest parentId newReply) = appendReplyAt p newReply forest"
    by simp_all
  from addReply_preorder [OF found] res
  obtain ys zs where order: "map stripReplies (preorder forest) = ys @ zs"
    "map stripReplies (preorder (appendReplyAt p newReply forest)) =
       ys @ map stripReplies (preorder [newReply]) @ zs" by auto
  have "length (map stripReplies (preorder (appendReplyAt p newReply forest))) =
        length (map stripReplies (preorder forest)) + length (map stripReplies (preorder [newReply]))"
    unfolding order by simp
  then have count: "countComments (appendReplyAt p newReply forest) =
             countComments forest + countComments [newReply]"
    by (simp add: countComments_def)
  have "addReplyRecursively forest parentId newReply = (appendReplyAt p newReply forest, True)"
    using found res by (cases "addReplyRecursively forest parentId newReply") simp
  with p count order show ?thesis
    by (auto simp: firstMatch_def countComments_leaf)
qed

theorem addReplyRecursively_first_match_witness:
  "(\<exists>c \<in> set (preorder exampleForest). id_comment c = ''t'') \<and>
   firstMatch exampleForest ''t'' = Some [1, 0] \<and>
   addReplyRecursively exampleForest ''t'' exampleReply =
     ([mk ''a'' None None,
       mk ''b'' (Some [mk ''t'' (Some [exampleReply]) None, mk ''c'' (Some []) None]) None,
       mk ''t'' (Some []) None], True) \<and>
   countComments exampleForest = 5 \<and>
   countComments (fst (addReplyRecursively exampleForest ''t'' exampleReply)) = 6"
proof -
  have pre: "preorder exampleForest =
     [mk ''a'' None None,
      mk ''b'' (Some [mk ''t'' None None, mk ''c'' (Some []) None]) None,
      mk ''t'' None None, mk ''c'' (Some []) None, mk ''t'' (Some []) None]"
    by (simp add: exampleForest_def mk_def preorder_Cons orEmpty_def)
  have ex: "\<exists>c \<in> set (preorder exampleForest). id_comment c = ''t''"
    unfolding pre by (simp add: mk_def)
  have fm: "firstMatch exampleForest ''t'' = Some [1, 0]"
    by (simp add: firstMatch_def exampleForest_def mk_def findPath_Cons orEmpty_def)
  have cnt: "countComments exampleForest = 5"
    by (simp add: countComments_def pre)
  have leaf: "orEmpty (replies exampleReply) = []"
    by (simp add: exampleReply_def mk_def orEmpty_def)
  have app: "appendReplyAt [1, 0] exampleReply exampleForest =
     [mk ''a'' None None,
       mk ''b'' (Some [mk ''t'' (Some [exampleReply]) None, mk ''c'' (Some []) None]) None,
       mk ''t'' (Some []) None]"
    by (simp add: exampleForest_def mk_def orEmpty_def)
  from addReplyRecursively_first_match [OF ex, of exampleReply] fm leaf cnt app
  show ?thesis using ex by auto
qed

text \<open>
  C3 as stated fails: the likes are stored as an array, and un-liking then liking
  again moves the user to the end of it.
\<close>

theorem toggleLike_twice_counterexample:
  "toggleLikeInComments
     (toggleLikeInComments [mk ''a'' None (Some [''u1'', ''u2''])] ''a'' ''u1'') ''a'' ''u1''
   \<noteq> [mk ''a'' None (Some [''u1'', ''u2''])]"
  by (simp add: toggle_Cons toggleOne_def mk_def orEmpty_def)

text \<open>
  C3, amended. Applying \<open>toggleLikeInComments\<close> twice with the same comment id and
  user gives back the original forest up to the stored form of the likes of the
  comments with that id: there the same users like the comment as before (the array
  may be reordered, or created empty when it was absent), and every other field of
  every comment, the likes arrays of all other comments and the shape of the forest
  are equal to the original.
\<close>

theorem toggleLike_twice_same_members:
  "map (viewComment commentId)
     (toggleLikeInComments (toggleLikeInComments forest commentId uid) commentId uid)
   = map (viewComment commentId) forest"
proof (induction forest rule: forest_induct)
  case Nil
  show ?case by simp
next
  case (Cons c rest)
  then show ?case by (simp add: toggle_Cons toggleOne_twice_view)
qed

section \<open>Properties of the shared comment arrays\<close>

text \<open>
  C1 does not hold of the code. In the example store the caller holds the array 0,
  which reads as one comment \<open>p\<close> without replies. After
  \<open>handleAddChapterComment\<close> has computed \<open>updatedComments\<close> for a reply to \<open>p\<close>, the
  new array (reference 4) reads as \<open>p\<close> with the reply, which is also what the pure
  function \<open>addReplyRecursively\<close> returns, but so does the array 0 of the caller: the
  copy is shallow and the reply was pushed into the comment object both arrays hold.
  A top-level comment (no \<open>parentId\<close>) is pushed onto the copy only, and there the
  array of the caller is unchanged.
\<close>

theorem addReply_mutates_caller_forest:
  "readForest 3 exampleStore 0 = Some [mk ''p'' None None] \<and>
   map_option (\<lambda>(s, updated). (updated, readForest 3 s 0, readForest 3 s updated))
     (updatedComments_store 3 exampleStore (Some 0) (Some ''p'') exampleReply)
   = Some (4, Some [mk ''p'' (Some [exampleReply]) None],
              Some [mk ''p'' (Some [exampleReply]) None]) \<and>
   addReplyRecursively [mk ''p'' None None] ''p'' exampleReply =
     ([mk ''p'' (Some [exampleReply]) None], True) \<and>
   map_option (\<lambda>(s, updated). (updated, readForest 3 s 0, readForest 3 s updated))
     (updatedComments_store 3 exampleStore (Some 0) None exampleReply)
   = Some (4, Some [mk ''p'' None None], Some [mk ''p'' None None, exampleReply])"
  by (simp add: eval_nat_numeral exampleStore_def updatedComments_store_def allocArray_def
      allocObject_def push_def mk_def exampleReply_def addReply_match orEmpty_def)

section \<open>Properties of the session tracker and the engagement recorder\<close>

lemma find_first:
  "\<forall>x\<in>set pre. \<not> P x \<Longrightarrow> P y \<Longrightarrow> find P (pre @ y # post) = Some y"
  by (induction pre) auto

lemma find_absent: "\<forall>x\<in>set xs. \<not> P x \<Longrightarrow> find P xs = None"
  by (induction xs) auto

lemma two: "(2::nat) = Suc (Suc 0)"
  by simp

lemma ex_simps:
  "id_comic exampleComic = ''c1''" "chapters exampleComic = [exampleChapter]"
  "viewCount_comic exampleComic = None"
  by (simp_all add: exampleComic_def)

lemma ex_chapter_simps:
  "id_chapter exampleChapter = ''ch1''" "viewCount_chapter exampleChapter = None"
  by (simp_all add: exampleChapter_def)

text \<open>
  C7. The first effect, when its guard lets it run (the library is loaded and no
  comic is selected), resolves the persisted session pointer without failing. With
  no stored entry it leaves the state as it is; an entry that cannot be parsed
  raises an exception in the \<open>try\<close> block, which is caught, and the state is left as
  it is. When no comic of the library has the id of the pointer, the \<open>try\<close> block ends
  without an exception and without a candidate, and the effect leaves the state,
  and the candidate held in it, as it is. When the library has such a comic (the
  first one with that id is taken) and none of its chapters has the chapter id of
  the pointer, the effect sets the candidate to that comic with no chapter. When
  the comic has such a chapter (again the first one), the effect sets the candidate
  to the comic with that chapter.
\<close>

theorem resumeEffect_stale_pointer:
  assumes "comics s \<noteq> []" and "selectedComic s = None"
  shows
    "(lastSession s = Missing \<longrightarrow>
        tryResolveSession (lastSession s) (comics s) = Inr None \<and> resumeEffect s = s) \<and>
     (lastSession s = Unparsable \<longrightarrow>
        tryResolveSession (lastSession s) (comics s) = Inl ParseError \<and> resumeEffect s = s) \<and>
     (lastSession s = Session comicId chId \<and> (\<forall>c\<in>set (comics s). id_comic c \<noteq> comicId) \<longrightarrow>
        tryResolveSession (lastSession s) (comics s) = Inr None \<and>
        resumeEffect s = s \<and> resumeData (resumeEffect s) = resumeData s) \<and>
     (lastSession s = Session comicId chId \<and> comics s = pre @ fc # post \<and>
      (\<forall>c\<in>set pre. id_comic c \<noteq> comicId) \<and> id_comic fc = comicId \<longrightarrow>
        ((\<forall>ch\<in>set (chapters fc). Some (id_chapter ch) \<noteq> chId) \<longrightarrow>
           tryResolveSession (lastSession s) (comics s) =
             Inr (Some \<lparr>resumeComic = fc, resumeChapter = None\<rparr>) \<and>
           resumeEffect s = s\<lparr>resumeData := Some \<lparr>resumeComic = fc, resumeChapter = None\<rparr>\<rparr> \<and>
           resumeData (resumeEffect s) = Some \<lparr>resumeComic = fc, resumeChapter = None\<rparr>) \<and>
        (chapters fc = cpre @ fch # cpost \<and> (\<forall>ch\<in>set cpre. Some (id_chapter ch) \<noteq> chId) \<and>
         Some (id_chapter fch) = chId \<and> id_chapter fch \<noteq> [] \<longrightarrow>
           resumeEffect s = s\<lparr>resumeData := Some \<lparr>resumeComic = fc, resumeChapter = Some fch\<rparr>\<rparr> \<and>
           resumeData (resumeEffect s) = Some \<lparr>resumeComic = fc, resumeChapter = Some fch\<rparr>))"
proof -
  have absent: "tryResolveSession (Session comicId chId) (comics s) = Inr None"
    if "\<forall>c\<in>set (comics s). id_comic c \<noteq> comicId"
    using that by (simp add: tryResolveSession_def find_absent)
  have found: "find (\<lambda>c. id_comic c = comicId) (comics s) = Some fc"
    if "comics s = pre @ fc # post" "\<forall>c\<in>set pre. id_comic c \<noteq> comicId" "id_comic fc = comicId"
    using that by (simp add: find_first)
  have nochapter: "tryResolveSession (Session comicId chId) (comics s) =
        Inr (Some \<lparr>resumeComic = fc, resumeChapter = None\<rparr>)"
    if "find (\<lambda>c. id_comic c = comicId) (comics s) = Some fc"
      "\<forall>ch\<in>set (chapters fc). Some (id_chapter ch) \<noteq> chId"
    using that by (cases chId) (simp_all add: tryResolveSession_def find_absent)
  have present: "tryResolveSession (Session comicId chId) (comics s) =
        Inr (Some \<lparr>resumeComic = fc, resumeChapter = Some fch\<rparr>)"
    if "find (\<lambda>c. id_comic c = comicId) (comics s) = Some fc"
      "chapters fc = cpre @ fch # cpost" "\<forall>ch\<in>set cpre. Some (id_chapter ch) \<noteq> chId"
      "Some (id_chapter fch) = chId" "id_chapter fch \<noteq> []"
  proof -
    have "find (\<lambda>ch. id_chapter ch = id_chapter fch) (chapters fc) = Some fch"
      using that(2,3,4) by (auto simp add: find_first)
    then show ?thesis using that(1,4,5) by (auto simp add: tryResolveSession_def)
  qed
  show ?thesis
    using assms absent found nochapter present
    by (auto simp add: resumeEffect_def resolveSession_def tryResolveSession_def)
qed

theorem resumeEffect_stale_pointer_witness:
  "comics (initialApp\<lparr>comics := [exampleComic], lastSession := Session ''c9'' (Some ''ch1'')\<rparr>) \<noteq> [] \<and>
   selectedComic (initialApp\<lparr>comics := [exampleComic], lastSession := Session ''c9'' (Some ''ch1'')\<rparr>)
     = None \<and>
   id_comic exampleComic \<noteq> ''c9'' \<and>
   resumeEffect (initialApp\<lparr>comics := [exampleComic], lastSession := Session ''c9'' (Some ''ch1'')\<rparr>)
     = initialApp\<lparr>comics := [exampleComic], lastSession := Session ''c9'' (Some ''ch1'')\<rparr> \<and>
   id_comic exampleComic = ''c1'' \<and> chapters exampleComic = [exampleChapter] \<and>
   id_chapter exampleChapter \<noteq> ''ch2'' \<and>
   resumeData
     (resumeEffect (initialApp\<lparr>comics := [exampleComic], lastSession := Session ''c1'' (Some ''ch2'')\<rparr>))
     = Some \<lparr>resumeComic = exampleComic, resumeChapter = None\<rparr> \<and>
   id_chapter exampleChapter = ''ch1'' \<and>
   resumeData
     (resumeEffect (initialApp\<lparr>comics := [exampleComic], lastSession := Session ''c1'' (Some ''ch1'')\<rparr>))
     = Some \<lparr>resumeComic = exampleComic, resumeChapter = Some exampleChapter\<rparr> \<and>
   dispatch 2 (libraryLoaded [exampleComic]) (initialApp\<lparr>lastSession := Session ''c1'' (Some ''ch2'')\<rparr>)
     = Some (initialApp\<lparr>comics := [exampleComic], lastSession := Session ''c1'' (Some ''ch2''),
               resumeData := Some \<lparr>resumeComic = exampleComic, resumeChapter = None\<rparr>\<rparr>)"
proof -
  let ?absent = "initialApp\<lparr>comics := [exampleComic], lastSession := Session ''c9'' (Some ''ch1'')\<rparr>"
  let ?stale = "initialApp\<lparr>comics := [exampleComic], lastSession := Session ''c1'' (Some ''ch2'')\<rparr>"
  let ?fresh = "initialApp\<lparr>comics := [exampleComic], lastSession := Session ''c1'' (Some ''ch1'')\<rparr>"
  have g: "comics ?absent \<noteq> []" "selectedComic ?absent = None"
    "comics ?stale \<noteq> []" "selectedComic ?stale = None"
    "comics ?fresh \<noteq> []" "selectedComic ?fresh = None"
    by (simp_all add: initialApp_def)
  have e: "id_comic exampleComic = ''c1''" "chapters exampleComic = [exampleChapter]"
    "id_chapter exampleChapter = ''ch1''"
    by (simp_all add: exampleComic_def exampleChapter_def)
  have a: "resumeEffect ?absent = ?absent"
    using resumeEffect_stale_pointer [OF g(1,2), of "''c9''" "Some ''ch1''"] e
    by simp
  have b: "resumeData (resumeEffect ?stale) = Some \<lparr>resumeComic = exampleComic, resumeChapter = None\<rparr>"
    using resumeEffect_stale_pointer [OF g(3,4), of "''c1''" "Some ''ch2''" "[]" exampleComic "[]"] e
    by simp
  have c: "resumeData (resumeEffect ?fresh) =
      Some \<lparr>resumeComic = exampleComic, resumeChapter = Some exampleChapter\<rparr>"
    using resumeEffect_stale_pointer [OF g(5,6), of "''c1''" "Some ''ch1''" "[]" exampleComic "[]"
        "[]" exampleChapter "[]"] e
    by simp
  have d: "dispatch 2 (libraryLoaded [exampleComic])
      (initialApp\<lparr>lastSession := Session ''c1'' (Some ''ch2'')\<rparr>)
     = Some (initialApp\<lparr>comics := [exampleComic], lastSession := Session ''c1'' (Some ''ch2''),
               resumeData := Some \<lparr>resumeComic = exampleComic, resumeChapter = None\<rparr>\<rparr>)"
    by (simp add: dispatch_def two runEffects_def resumeEffect_def sessionEffect_def
        resolveSession_def tryResolveSession_def libraryLoaded_def Let_def initialApp_def e)
  show ?thesis using g a b c d e by simp
qed

lemma bumpChapter_length [simp]: "length (bumpChapter i chs) = length chs"
  by (simp add: bumpChapter_def)

lemma bumpChapter_nth:
  "k < length chs \<Longrightarrow>
   bumpChapter i chs ! k =
     (if id_chapter (chs ! k) = i
      then (chs ! k)\<lparr>viewCount_chapter := Some (orZero (viewCount_chapter (chs ! k)) + 1)\<rparr>
      else chs ! k)"
  by (simp add: bumpChapter_def)

text \<open>
  C6. Reading a chapter of a comic, both without a view count: the comic that
  \<open>handleReadChapter\<close> produces (and selects) still has no view count of its own and
  differs from the old one only in its chapters and its \<open>lastRead\<close>; \<open>lastRead\<close> is
  the id and title of the chapter, page 0 and the current time; the chapter read
  has view count 1 and every chapter with another id is unchanged, which, when ids
  are distinct, is every other chapter.
\<close>

theorem readChapter_first_read:
  assumes "viewCount_comic sel = None" and "viewCount_chapter ch = None"
    and "ch \<in> set (chapters sel)"
  shows "viewCount_comic (readChapter sel ch now) = None \<and>
    readChapter sel ch now =
      sel\<lparr>chapters := chapters (readChapter sel ch now),
          lastRead := Some \<lparr>chapterId = id_chapter ch, chapterTitle = title_chapter ch,
                            pageIndex = 0, timestamp = now\<rparr>\<rparr> \<and>
    length (chapters (readChapter sel ch now)) = length (chapters sel) \<and>
    (\<forall>k < length (chapters sel).
       (chapters sel ! k = ch \<longrightarrow>
          chapters (readChapter sel ch now) ! k = ch\<lparr>viewCount_chapter := Some 1\<rparr>) \<and>
       (id_chapter (chapters sel ! k) \<noteq> id_chapter ch \<longrightarrow>
          chapters (readChapter sel ch now) ! k = chapters sel ! k)) \<and>
    (distinct (map id_chapter (chapters sel)) \<longrightarrow>
       (\<forall>k < length (chapters sel). chapters sel ! k \<noteq> ch \<longrightarrow>
          chapters (readChapter sel ch now) ! k = chapters sel ! k)) \<and>
    (selectedComic s = Some sel \<longrightarrow>
       selectedComic (handleReadChapter ch now s) = Some (readChapter sel ch now))"
proof -
  have d: "chapters sel ! k = chapters sel ! j \<or> id_chapter (chapters sel ! k) \<noteq> id_chapter (chapters sel ! j)"
    if "distinct (map id_chapter (chapters sel))" "k < length (chapters sel)" "j < length (chapters sel)" for k j
    using that by (metis distinct_conv_nth length_map nth_map)
  from assms(3) obtain j where j: "j < length (chapters sel)" "chapters sel ! j = ch"
    by (auto simp: in_set_conv_nth)
  have unch: "distinct (map id_chapter (chapters sel)) \<longrightarrow>
       (\<forall>k < length (chapters sel). chapters sel ! k \<noteq> ch \<longrightarrow>
          chapters (readChapter sel ch now) ! k = chapters sel ! k)"
    using d j by (auto simp: readChapter_def bumpChapter_nth)
  show ?thesis
    using assms(1,2) unch
    by (auto simp: readChapter_def bumpChapter_nth orZero_def handleReadChapter_def Let_def)
qed

theorem readChapter_first_read_witness:
  "viewCount_comic exampleComic = None \<and> viewCount_chapter exampleChapter = None \<and>
   exampleChapter \<in> set (chapters exampleComic) \<and>
   viewCount_comic (readChapter exampleComic exampleChapter 1700000000000) = None \<and>
   chapters (readChapter exampleComic exampleChapter 1700000000000) =
     [exampleChapter\<lparr>viewCount_chapter := Some 1\<rparr>] \<and>
   lastRead (readChapter exampleComic exampleChapter 1700000000000) =
     Some \<lparr>chapterId = ''ch1'', chapterTitle = ascii ''Chapter 1'', pageIndex = 0,
            timestamp = 1700000000000\<rparr>"
proof -
  have a: "viewCount_comic exampleComic = None" "viewCount_chapter exampleChapter = None"
    "exampleChapter \<in> set (chapters exampleComic)"
    by (simp_all add: exampleComic_def exampleChapter_def)
  have b: "chapters exampleComic ! 0 = exampleChapter" "length (chapters exampleComic) = 1"
    by (simp_all add: exampleComic_def)
  from readChapter_first_read [OF a, of 1700000000000 initialApp] b
  have "length (chapters (readChapter exampleComic exampleChapter 1700000000000)) = 1"
    and "chapters (readChapter exampleComic exampleChapter 1700000000000) ! 0 =
      exampleChapter\<lparr>viewCount_chapter := Some 1\<rparr>"
    and "viewCount_comic (readChapter exampleComic exampleChapter 1700000000000) = None"
    by auto
  moreover have "lastRead (readChapter exampleComic exampleChapter 1700000000000) =
     Some \<lparr>chapterId = ''ch1'', chapterTitle = ascii ''Chapter 1'', pageIndex = 0,
            timestamp = 1700000000000\<rparr>"
    by (simp add: readChapter_def exampleChapter_def)
  ultimately show ?thesis using a
    by (cases "chapters (readChapter exampleComic exampleChapter 1700000000000)") auto
qed

lemma resumeEffect_selected [simp]: "selectedComic s = Some sc \<Longrightarrow> resumeEffect s = s"
  by (simp add: resumeEffect_def)

lemma sessionEffect_unselected [simp]: "selectedComic s = None \<Longrightarrow> sessionEffect s = s"
  by (simp add: sessionEffect_def)

lemma resumeEffect_fields [simp]:
  "selectedComic (resumeEffect s) = selectedComic s"
  "comics (resumeEffect s) = comics s"
  "selectedChapter (resumeEffect s) = selectedChapter s"
  "lastSession (resumeEffect s) = lastSession s"
  "view (resumeEffect s) = view s"
  by (simp_all add: resumeEffect_def split: option.splits)

lemma sessionEffect_fields [simp]:
  "selectedComic (sessionEffect s) = selectedComic s"
  "comics (sessionEffect s) = comics s"
  "selectedChapter (sessionEffect s) = selectedChapter s"
  "view (sessionEffect s) = view s"
  by (simp_all add: sessionEffect_def Let_def split: option.splits)

lemma sessionEffect_idem [simp]: "sessionEffect (sessionEffect s) = sessionEffect s"
  by (simp add: sessionEffect_def Let_def split: option.splits)

lemma sessionEffect_resumeData:
  "selectedComic s = Some sc \<Longrightarrow>
   resumeData (sessionEffect s) =
     (case resumeData s of None \<Rightarrow> None
      | Some r \<Rightarrow> if id_comic (resumeComic r) = id_comic sc then None else Some r)"
  by (simp add: sessionEffect_def Let_def split: option.splits)

lemma sessionEffect_lastSession:
  "selectedComic s = Some sc \<Longrightarrow>
   lastSession (sessionEffect s) = Session (id_comic sc) (map_option id_chapter (selectedChapter s))"
  by (simp add: sessionEffect_def Let_def split: option.splits)

lemma settle_unselected:
  assumes "selectedComic cur = None"
    and "comics prev \<noteq> comics cur \<or> selectedComic prev \<noteq> None"
  shows "settle (Suc (Suc n)) prev cur = Some (resumeEffect cur)"
proof -
  have r1: "runEffects prev cur = resumeEffect cur"
    using assms by (auto simp: runEffects_def Let_def)
  have r2: "runEffects cur (resumeEffect cur) = resumeEffect cur"
    using assms(1) by (simp add: runEffects_def Let_def)
  show ?thesis using r1 r2 by (simp add: Let_def)
qed

lemma settle_selected:
  assumes "selectedComic cur = Some sc"
    and "selectedComic prev \<noteq> selectedComic cur \<or> selectedChapter prev \<noteq> selectedChapter cur
         \<or> resumeData prev \<noteq> resumeData cur"
  shows "settle (Suc (Suc n)) prev cur = Some (sessionEffect cur)"
proof -
  have r1: "runEffects prev cur = sessionEffect cur"
    using assms by (auto simp: runEffects_def Let_def)
  have r2: "resumeData (sessionEffect cur) \<noteq> resumeData cur \<Longrightarrow>
      runEffects cur (sessionEffect cur) = sessionEffect cur"
    using assms(1) by (simp add: runEffects_def Let_def)
  show ?thesis using r1 r2 by (auto simp: Let_def)
qed

text \<open>Two rounds of effects are enough after every event: the run always returns.\<close>

lemma settle_returns: "\<exists>r. settle (Suc (Suc n)) prev cur = Some r"
proof (cases "selectedComic cur")
  case None
  have r1: "runEffects prev cur = cur \<or> runEffects prev cur = resumeEffect cur"
    using None by (auto simp: runEffects_def Let_def)
  have r2: "runEffects cur (resumeEffect cur) = resumeEffect cur"
    using None by (simp add: runEffects_def Let_def)
  show ?thesis using r1 r2 by (auto simp: Let_def)
next
  case (Some sc)
  have r1: "runEffects prev cur = cur \<or> runEffects prev cur = sessionEffect cur"
    using Some by (auto simp: runEffects_def Let_def)
  have r2: "resumeData (sessionEffect cur) \<noteq> resumeData cur \<Longrightarrow>
      runEffects cur (sessionEffect cur) = sessionEffect cur"
    using Some by (simp add: runEffects_def Let_def)
  show ?thesis using r1 r2 by (auto simp: Let_def)
qed

lemma find_replaceComic:
  "\<exists>c\<in>set cs. id_comic c = id_comic u \<Longrightarrow>
   find (\<lambda>c. id_comic c = id_comic u) (replaceComic u cs) = Some u"
  by (induction cs) (auto simp: replaceComic_def)

lemma find_replaceComic_twice:
  "\<exists>c\<in>set cs. id_comic c = id_comic u \<Longrightarrow> id_comic v = id_comic u \<Longrightarrow>
   find (\<lambda>c. id_comic c = id_comic u) (replaceComic v (replaceComic u cs)) = Some v"
  by (induction cs) (auto simp: replaceComic_def)

lemma dispatch_open:
  assumes "selectedComic s = None" "selectedComic (h s) = Some sc"
  shows "dispatch 2 h s = Some (sessionEffect (h s))"
  unfolding dispatch_def two using assms by (intro settle_selected) auto

lemma dispatch_leave:
  assumes "selectedComic s = Some sc" "selectedComic (h s) = None"
  shows "dispatch 2 h s = Some (resumeEffect (h s))"
  unfolding dispatch_def two using assms by (intro settle_unselected) auto

lemma resumeEffect_found:
  assumes "selectedComic s = None" "lastSession s = Session cid chid"
    "find (\<lambda>c. id_comic c = cid) (comics s) = Some fc"
  shows "\<exists>rd. resumeData (resumeEffect s) = Some rd \<and> resumeComic rd = fc"
proof -
  from assms(3) have "comics s \<noteq> []" by auto
  then show ?thesis using assms
    by (simp add: resumeEffect_def resolveSession_def tryResolveSession_def)
qed

text \<open>
  Leaving an open comic for the gallery, by a handler that deselects the comic and
  leaves the library alone: the first effect runs and derives a candidate from the
  stored pointer.
\<close>

lemma leave_reoffers:
  assumes sel: "selectedComic s1 = Some sc"
    and ses: "lastSession s1 = Session (id_comic sc) chid"
    and lib: "find (\<lambda>c. id_comic c = id_comic sc) (comics s1) = Some sc"
    and ret: "selectedComic (r s1) = None" "view (r s1) = GALLERY" "comics (r s1) = comics s1"
      "lastSession (r s1) = lastSession s1"
  shows "\<exists>s2 rd2. dispatch 2 r s1 = Some s2 \<and> view s2 = GALLERY \<and> selectedComic s2 = None \<and>
           lastSession s2 = lastSession s1 \<and> resumeData s2 = Some rd2 \<and> resumeComic rd2 = sc"
proof -
  have "dispatch 2 r s1 = Some (resumeEffect (r s1))"
    using sel ret(1) by (rule dispatch_leave)
  moreover have "\<exists>rd. resumeData (resumeEffect (r s1)) = Some rd \<and> resumeComic rd = sc"
    using ret ses lib by (intro resumeEffect_found) auto
  ultimately show ?thesis using ret by auto
qed

lemma handleResumeSession_opens:
  assumes "resumeData s = Some rd"
    and "\<exists>c\<in>set (comics s). id_comic c = id_comic (resumeComic rd)"
  shows "\<exists>sc. selectedComic (handleResumeSession s) = Some sc \<and>
           id_comic sc = id_comic (resumeComic rd) \<and>
           find (\<lambda>c. id_comic c = id_comic sc) (comics (handleResumeSession s)) = Some sc \<and>
           resumeData (handleResumeSession s) = None"
proof (cases "resumeChapter rd")
  case None
  let ?u = "(resumeComic rd)\<lparr>viewCount_comic := Some (orZero (viewCount_comic (resumeComic rd)) + 1)\<rparr>"
  have "find (\<lambda>c. id_comic c = id_comic ?u) (replaceComic ?u (comics s)) = Some ?u"
    using assms(2) by (intro find_replaceComic) simp
  then show ?thesis using assms(1) None
    by (simp add: handleResumeSession_def Let_def)
next
  case (Some rch)
  let ?u = "(resumeComic rd)\<lparr>viewCount_comic := Some (orZero (viewCount_comic (resumeComic rd)) + 1)\<rparr>"
  let ?v = "?u\<lparr>chapters := bumpChapter (id_chapter rch) (chapters ?u)\<rparr>"
  have "find (\<lambda>c. id_comic c = id_comic ?u) (replaceComic ?v (replaceComic ?u (comics s))) = Some ?v"
    using assms(2) by (intro find_replaceComic_twice) simp_all
  then show ?thesis using assms(1) Some
    by (simp add: handleResumeSession_def Let_def)
qed

lemma handleOpenComic_opens:
  assumes "\<exists>c\<in>set (comics s). id_comic c = id_comic c0"
  shows "\<exists>sc. selectedComic (handleOpenComic c0 s) = Some sc \<and>
           id_comic sc = id_comic c0 \<and>
           find (\<lambda>c. id_comic c = id_comic sc) (comics (handleOpenComic c0 s)) = Some sc \<and>
           resumeData (handleOpenComic c0 s) = resumeData s"
proof -
  let ?u = "c0\<lparr>viewCount_comic := Some (orZero (viewCount_comic c0) + 1)\<rparr>"
  have "find (\<lambda>c. id_comic c = id_comic ?u) (replaceComic ?u (comics s)) = Some ?u"
    using assms by (intro find_replaceComic) simp
  then show ?thesis by (simp add: handleOpenComic_def Let_def)
qed

text \<open>
  C2 does not hold of the code. A candidate is pending at the gallery for a comic
  of the library, and that comic becomes the open selection, by the resume action
  or by opening it by hand. The code clears the candidate (\<open>setResumeData(null)\<close> at
  line 487, and lines 110-112 of the second effect), and none is held while the
  comic is open. But the stored pointer is not removed, as it is when the candidate
  is dismissed: it is set to the open selection. When the user then returns to the
  gallery, by the home button of the header from any view or by the back button of
  the detail view, no comic is selected any more, the first effect runs again and
  derives from the stored pointer a candidate for the comic that was just resumed:
  the same content is offered again though no other session was recorded.
\<close>

theorem resume_reoffered_after_consumption:
  assumes "resumeData s = Some rd" and "selectedComic s = None"
    and "\<exists>c\<in>set (comics s). id_comic c = id_comic (resumeComic rd)"
    and "h = handleResumeSession \<or>
         (\<exists>c0. h = handleOpenComic c0 \<and> id_comic c0 = id_comic (resumeComic rd))"
  shows "\<exists>s1 sc. dispatch 2 h s = Some s1 \<and> resumeData s1 = None \<and>
           selectedComic s1 = Some sc \<and> id_comic sc = id_comic (resumeComic rd) \<and>
           lastSession s1 = Session (id_comic sc) (map_option id_chapter (selectedChapter s1)) \<and>
           (\<exists>s2 rd2. dispatch 2 onHomeClick s1 = Some s2 \<and> view s2 = GALLERY \<and>
              selectedComic s2 = None \<and> lastSession s2 = lastSession s1 \<and>
              resumeData s2 = Some rd2 \<and> resumeComic rd2 = sc) \<and>
           (view s1 = DETAIL \<longrightarrow>
              (\<exists>s2 rd2. dispatch 2 goBack s1 = Some s2 \<and> view s2 = GALLERY \<and>
                 selectedComic s2 = None \<and> lastSession s2 = lastSession s1 \<and>
                 resumeData s2 = Some rd2 \<and> resumeComic rd2 = sc))"
proof -
  have "\<exists>sc. selectedComic (h s) = Some sc \<and> id_comic sc = id_comic (resumeComic rd) \<and>
           find (\<lambda>c. id_comic c = id_comic sc) (comics (h s)) = Some sc \<and>
           (case resumeData (h s) of None \<Rightarrow> True
            | Some r \<Rightarrow> id_comic (resumeComic r) = id_comic sc)"
    using assms(4)
  proof
    assume "h = handleResumeSession"
    then show ?thesis using handleResumeSession_opens [OF assms(1,3)] by auto
  next
    assume "\<exists>c0. h = handleOpenComic c0 \<and> id_comic c0 = id_comic (resumeComic rd)"
    then obtain c0 where c0: "h = handleOpenComic c0" "id_comic c0 = id_comic (resumeComic rd)"
      by blast
    then show ?thesis using handleOpenComic_opens [of s c0] assms(1,3) by auto
  qed
  then obtain sc where sc: "selectedComic (h s) = Some sc"
    "id_comic sc = id_comic (resumeComic rd)"
    "find (\<lambda>c. id_comic c = id_comic sc) (comics (h s)) = Some sc"
    "case resumeData (h s) of None \<Rightarrow> True | Some r \<Rightarrow> id_comic (resumeComic r) = id_comic sc"
    by blast
  let ?s1 = "sessionEffect (h s)"
  have d: "dispatch 2 h s = Some ?s1" using assms(2) sc(1) by (rule dispatch_open)
  have r: "resumeData ?s1 = None"
    using sc(4) sessionEffect_resumeData [OF sc(1)] by (auto split: option.splits)
  have l: "lastSession ?s1 = Session (id_comic sc) (map_option id_chapter (selectedChapter ?s1))"
    using sessionEffect_lastSession [OF sc(1)] by simp
  have sel: "selectedComic ?s1 = Some sc" using sc(1) by simp
  have lib: "find (\<lambda>c. id_comic c = id_comic sc) (comics ?s1) = Some sc" using sc(3) by simp
  have home: "\<exists>s2 rd2. dispatch 2 onHomeClick ?s1 = Some s2 \<and> view s2 = GALLERY \<and>
      selectedComic s2 = None \<and> lastSession s2 = lastSession ?s1 \<and>
      resumeData s2 = Some rd2 \<and> resumeComic rd2 = sc"
    using sel l lib by (rule leave_reoffers) (simp_all add: onHomeClick_def)
  have detail: "\<exists>s2 rd2. dispatch 2 goBack ?s1 = Some s2 \<and> view s2 = GALLERY \<and>
      selectedComic s2 = None \<and> lastSession s2 = lastSession ?s1 \<and>
      resumeData s2 = Some rd2 \<and> resumeComic rd2 = sc" if "view ?s1 = DETAIL"
    using sel l lib by (rule leave_reoffers) (use that in \<open>simp_all add: goBack_def\<close>)
  show ?thesis using d r l sel sc(2) home detail by blast
qed

theorem resume_reoffered_after_consumption_witness:
  "resumeData pendingChapterApp =
     Some \<lparr>resumeComic = exampleComic, resumeChapter = Some exampleChapter\<rparr> \<and>
   selectedComic pendingChapterApp = None \<and>
   (\<exists>c\<in>set (comics pendingChapterApp). id_comic c = id_comic exampleComic) \<and>
   (\<exists>s1 sc. dispatch 2 handleResumeSession pendingChapterApp = Some s1 \<and> resumeData s1 = None \<and>
      selectedComic s1 = Some sc \<and> id_comic sc = id_comic exampleComic \<and>
      (\<exists>s2 rd2. dispatch 2 onHomeClick s1 = Some s2 \<and> view s2 = GALLERY \<and>
         selectedComic s2 = None \<and> lastSession s2 = lastSession s1 \<and>
         resumeData s2 = Some rd2 \<and> resumeComic rd2 = sc)) \<and>
   dispatch 2 (libraryLoaded [exampleComic]) (initialApp\<lparr>lastSession := Session ''c1'' (Some ''ch1'')\<rparr>)
     = Some pendingChapterApp \<and>
   dispatch 2 handleResumeSession pendingChapterApp = Some readingApp \<and>
   view readingApp = READER \<and> resumeData readingApp = None \<and>
   lastSession readingApp = lastSession pendingChapterApp \<and>
   dispatch 2 onHomeClick readingApp = Some reofferedChapterApp \<and>
   view reofferedChapterApp = GALLERY \<and>
   lastSession reofferedChapterApp = lastSession pendingChapterApp \<and>
   resumeData reofferedChapterApp =
     Some \<lparr>resumeComic = resumedComic, resumeChapter = Some resumedChapter\<rparr> \<and>
   id_comic resumedComic = id_comic exampleComic \<and>
   id_chapter resumedChapter = id_chapter exampleChapter \<and>
   dispatch 2 (libraryLoaded [exampleComic]) (initialApp\<lparr>lastSession := Session ''c1'' None\<rparr>)
     = Some pendingApp \<and>
   dispatch 2 handleResumeSession pendingApp = Some resumedApp \<and>
   view resumedApp = DETAIL \<and> resumeData resumedApp = None \<and>
   lastSession resumedApp = lastSession pendingApp \<and>
   dispatch 2 goBack resumedApp = Some reofferedApp \<and>
   view reofferedApp = GALLERY \<and>
   resumeData reofferedApp = Some \<lparr>resumeComic = openedComic, resumeChapter = None\<rparr> \<and>
   id_comic openedComic = id_comic exampleComic \<and>
   dispatch 2 handleDismissResume pendingApp = Some (initialApp\<lparr>comics := [exampleComic]\<rparr>)"
proof -
  have a: "resumeData pendingChapterApp =
      Some \<lparr>resumeComic = exampleComic, resumeChapter = Some exampleChapter\<rparr>"
    and b: "selectedComic pendingChapterApp = None"
    and c: "\<exists>c\<in>set (comics pendingChapterApp).
              id_comic c = id_comic (resumeComic
                \<lparr>resumeComic = exampleComic, resumeChapter = Some exampleChapter\<rparr>)"
    by (simp_all add: pendingChapterApp_def initialApp_def)
  have g: "\<exists>s1 sc. dispatch 2 handleResumeSession pendingChapterApp = Some s1 \<and> resumeData s1 = None \<and>
      selectedComic s1 = Some sc \<and> id_comic sc = id_comic exampleComic \<and>
      (\<exists>s2 rd2. dispatch 2 onHomeClick s1 = Some s2 \<and> view s2 = GALLERY \<and>
         selectedComic s2 = None \<and> lastSession s2 = lastSession s1 \<and>
         resumeData s2 = Some rd2 \<and> resumeComic rd2 = sc)"
    using resume_reoffered_after_consumption [OF a b c, of handleResumeSession] by auto
  have t: "dispatch 2 (libraryLoaded [exampleComic])
       (initialApp\<lparr>lastSession := Session ''c1'' (Some ''ch1'')\<rparr>) = Some pendingChapterApp \<and>
   dispatch 2 handleResumeSession pendingChapterApp = Some readingApp \<and>
   view readingApp = READER \<and> resumeData readingApp = None \<and>
   lastSession readingApp = lastSession pendingChapterApp \<and>
   dispatch 2 onHomeClick readingApp = Some reofferedChapterApp \<and>
   view reofferedChapterApp = GALLERY \<and>
   lastSession reofferedChapterApp = lastSession pendingChapterApp \<and>
   resumeData reofferedChapterApp =
     Some \<lparr>resumeComic = resumedComic, resumeChapter = Some resumedChapter\<rparr> \<and>
   id_comic resumedComic = id_comic exampleComic \<and>
   id_chapter resumedChapter = id_chapter exampleChapter"
    by (simp add: dispatch_def two runEffects_def resumeEffect_def sessionEffect_def
        resolveSession_def tryResolveSession_def libraryLoaded_def handleResumeSession_def
        onHomeClick_def replaceComic_def bumpChapter_def orZero_def Let_def
        pendingChapterApp_def readingApp_def reofferedChapterApp_def resumedComic_def
        resumedChapter_def initialApp_def ex_simps ex_chapter_simps)
  have v: "dispatch 2 (libraryLoaded [exampleComic]) (initialApp\<lparr>lastSession := Session ''c1'' None\<rparr>)
     = Some pendingApp \<and>
   dispatch 2 handleResumeSession pendingApp = Some resumedApp \<and>
   view resumedApp = DETAIL \<and> resumeData resumedApp = None \<and>
   lastSession resumedApp = lastSession pendingApp \<and>
   dispatch 2 goBack resumedApp = Some reofferedApp \<and>
   view reofferedApp = GALLERY \<and>
   resumeData reofferedApp = Some \<lparr>resumeComic = openedComic, resumeChapter = None\<rparr> \<and>
   id_comic openedComic = id_comic exampleComic \<and>
   dispatch 2 handleDismissResume pendingApp = Some (initialApp\<lparr>comics := [exampleComic]\<rparr>)"
    by (simp add: dispatch_def two runEffects_def resumeEffect_def sessionEffect_def
        resolveSession_def tryResolveSession_def libraryLoaded_def handleResumeSession_def
        handleDismissResume_def goBack_def replaceComic_def orZero_def Let_def
        pendingApp_def resumedApp_def reofferedApp_def openedComic_def initialApp_def ex_simps)
  show ?thesis using a b c g t v by simp
qed

section \<open>Properties of the text normalizer\<close>

subsection \<open>Canonical ordering\<close>

lemma placeUnit_starter: "combiningClass u x = 0 \<Longrightarrow> placeUnit u x ys = x # ys"
  by (cases ys) simp_all

lemma set_placeUnit: "set (placeUnit u x ys) = insert x (set ys)"
  by (induction ys) auto

lemma set_canonicalOrder: "set (canonicalOrder u s) = set s"
  by (induction s) (simp_all add: canonicalOrder_def set_placeUnit)

lemma canonicalOrder_Cons:
  "canonicalOrder u (x # xs) = placeUnit u x (canonicalOrder u xs)"
  by (simp add: canonicalOrder_def)

lemma canonicalOrder_Nil: "canonicalOrder u [] = []"
  by (simp add: canonicalOrder_def)

lemma placeUnit_hd:
  "placeUnit u x ys \<noteq> [] \<and> (hd (placeUnit u x ys) = x \<or> (ys \<noteq> [] \<and> hd (placeUnit u x ys) = hd ys
      \<and> combiningClass u (hd ys) \<noteq> 0 \<and> combiningClass u (hd ys) < combiningClass u x))"
  by (cases ys) simp_all

lemma classesOrdered_Cons:
  "classesOrdered (k # ks) = ((ks = [] \<or> \<not> (k \<noteq> 0 \<and> hd ks \<noteq> 0 \<and> hd ks < k)) \<and> classesOrdered ks)"
  by (cases ks) auto

lemma ordered_placeUnit: "ordered u ys \<Longrightarrow> ordered u (placeUnit u x ys)"
proof (induction ys)
  case Nil
  show ?case by (simp add: ordered_def)
next
  case (Cons y ys)
  from Cons.prems have oys: "ordered u ys"
    by (simp add: ordered_def classesOrdered_Cons)
  show ?case
  proof (cases "combiningClass u x \<noteq> 0 \<and> combiningClass u y \<noteq> 0 \<and>
         combiningClass u y < combiningClass u x")
    case True
    have o: "ordered u (placeUnit u x ys)" using Cons.IH oys by simp
    have h: "placeUnit u x ys \<noteq> [] \<and> (hd (placeUnit u x ys) = x \<or> (ys \<noteq> [] \<and> hd (placeUnit u x ys) = hd ys))"
      using placeUnit_hd [of u x ys] by blast
    show ?thesis
      using True o h Cons.prems
      by (auto simp add: ordered_def classesOrdered_Cons hd_map)
  next
    case False
    then show ?thesis using Cons.prems
      by (auto simp add: ordered_def classesOrdered_Cons)
  qed
qed

lemma ordered_canonicalOrder: "ordered u (canonicalOrder u s)"
  by (induction s) (simp_all add: canonicalOrder_Cons canonicalOrder_Nil ordered_placeUnit, simp add: ordered_def)

lemma canonicalOrder_ordered: "ordered u s \<Longrightarrow> canonicalOrder u s = s"
proof (induction s)
  case Nil
  show ?case by (simp add: canonicalOrder_Nil)
next
  case (Cons x xs)
  from Cons.prems have "ordered u xs" by (simp add: ordered_def classesOrdered_Cons)
  then have "canonicalOrder u xs = xs" using Cons.IH by simp
  moreover have "placeUnit u x xs = x # xs"
    using Cons.prems by (cases xs) (auto simp add: ordered_def)
  ultimately show ?case by (simp add: canonicalOrder_Cons)
qed

lemma placeUnit_map:
  "combiningClass u (f x) = combiningClass u x \<Longrightarrow>
   \<forall>y\<in>set ys. combiningClass u (f y) = combiningClass u y \<Longrightarrow>
   placeUnit u (f x) (map f ys) = map f (placeUnit u x ys)"
  by (induction ys) simp_all

lemma canonicalOrder_map:
  "\<forall>y\<in>set s. combiningClass u (f y) = combiningClass u y \<Longrightarrow>
   canonicalOrder u (map f s) = map f (canonicalOrder u s)"
proof (induction s)
  case Nil
  show ?case by (simp add: canonicalOrder_Nil)
next
  case (Cons x xs)
  have "\<forall>y\<in>set (canonicalOrder u xs). combiningClass u (f y) = combiningClass u y"
    using Cons.prems by (simp add: set_canonicalOrder)
  then show ?case using Cons
    by (simp add: canonicalOrder_Cons placeUnit_map)
qed

lemma filter_placeUnit_dropped:
  "\<not> P x \<Longrightarrow> filter P (placeUnit u x ys) = filter P ys"
  by (induction ys) simp_all

lemma placeUnit_stays:
  "classesOrdered (k # map (combiningClass u) ys) \<Longrightarrow> k \<noteq> 0 \<Longrightarrow> combiningClass u x \<le> k \<Longrightarrow>
   \<forall>y\<in>set ys. \<not> P y \<longrightarrow> combiningClass u y \<noteq> 0 \<Longrightarrow>
   placeUnit u x (filter P ys) = x # filter P ys"
proof (induction ys arbitrary: k)
  case Nil
  show ?case by simp
next
  case (Cons z zs)
  show ?case
  proof (cases "P z")
    case True
    then show ?thesis using Cons.prems by auto
  next
    case False
    then have kz: "combiningClass u z \<noteq> 0" using Cons.prems by simp
    then have "k \<le> combiningClass u z" using Cons.prems by auto
    then have "placeUnit u x (filter P zs) = x # filter P zs"
      using Cons.IH [of "combiningClass u z"] Cons.prems kz by auto
    then show ?thesis using False by simp
  qed
qed

lemma filter_placeUnit_kept:
  "ordered u ys \<Longrightarrow> \<forall>y\<in>set ys. \<not> P y \<longrightarrow> combiningClass u y \<noteq> 0 \<Longrightarrow> P x \<Longrightarrow>
   filter P (placeUnit u x ys) = placeUnit u x (filter P ys)"
proof (induction ys)
  case Nil
  then show ?case by simp
next
  case (Cons y ys)
  from Cons.prems have oys: "ordered u ys" by (simp add: ordered_def classesOrdered_Cons)
  have IH: "filter P (placeUnit u x ys) = placeUnit u x (filter P ys)"
    using Cons.IH oys Cons.prems by simp
  show ?case
  proof (cases "combiningClass u x \<noteq> 0 \<and> combiningClass u y \<noteq> 0 \<and>
         combiningClass u y < combiningClass u x")
    case True
    then show ?thesis using IH by simp
  next
    case stop: False
    show ?thesis
    proof (cases "P y")
      case True
      then show ?thesis using stop Cons.prems by auto
    next
      case False
      then have ky: "combiningClass u y \<noteq> 0" using Cons.prems by simp
      show ?thesis
      proof (cases "combiningClass u x = 0")
        case True
        then show ?thesis using False Cons.prems by (auto simp add: placeUnit_starter)
      next
        case nz: False
        then have le: "combiningClass u x \<le> combiningClass u y" using stop ky by simp
        have "placeUnit u x (filter P ys) = x # filter P ys"
          using placeUnit_stays [of "combiningClass u y" u ys x P] Cons.prems ky le
          by (simp add: ordered_def)
        then show ?thesis using False stop Cons.prems by auto
      qed
    qed
  qed
qed

lemma canonicalOrder_filter:
  "\<forall>y\<in>set s. \<not> P y \<longrightarrow> combiningClass u y \<noteq> 0 \<Longrightarrow>
   canonicalOrder u (filter P s) = filter P (canonicalOrder u s)"
proof (induction s)
  case Nil
  show ?case by (simp add: canonicalOrder_Nil)
next
  case (Cons x xs)
  have IH: "canonicalOrder u (filter P xs) = filter P (canonicalOrder u xs)"
    using Cons by simp
  have d: "\<forall>y\<in>set (canonicalOrder u xs). \<not> P y \<longrightarrow> combiningClass u y \<noteq> 0"
    using Cons.prems by (simp add: set_canonicalOrder)
  show ?case
  proof (cases "P x")
    case True
    then show ?thesis
      using IH filter_placeUnit_kept [OF ordered_canonicalOrder d True]
      by (simp add: canonicalOrder_Cons)
  next
    case False
    then show ?thesis using IH
      by (simp add: canonicalOrder_Cons filter_placeUnit_dropped)
  qed
qed

subsection \<open>Strings of plain characters\<close>

lemma facts_unit: "unicodeFacts u \<Longrightarrow> unitFacts u c"
  by (simp add: unicodeFacts_def)

lemma decomposition_parts:
  assumes "unicodeFacts u" "d \<in> set (decomposition u c)"
  shows "decomposition u d = [d]"
  using facts_unit [OF assms(1), of c] assms(2)
  by (simp add: unitFacts_def list_all_iff undecomposable_def)

lemma stableUnit_plain: "stableUnit u d \<Longrightarrow> plain u d"
  by (simp add: stableUnit_def plain_def)

lemma concat_plain: "list_all (plain u) x \<Longrightarrow> concat (map (decomposition u) x) = x"
  by (induction x) (simp_all add: plain_def)

lemma filter_plain: "list_all (plain u) x \<Longrightarrow> filter (\<lambda>c. \<not> isCombiningMark c) x = x"
  by (induction x) (simp_all add: plain_def)

lemma replace_plain:
  "list_all (plain u) x \<Longrightarrow> replaceUnit 272 68 (replaceUnit 273 100 x) = x"
  by (induction x) (simp_all add: plain_def replaceUnit_def)

lemma plain_canonicalOrder: "list_all (plain u) x \<Longrightarrow> list_all (plain u) (canonicalOrder u x)"
  by (simp add: list_all_iff set_canonicalOrder)

lemma stripped_plain:
  assumes "unicodeFacts u" "\<forall>d\<in>set x. decomposition u d = [d]"
  shows "list_all (plain u)
           (replaceUnit 272 68 (replaceUnit 273 100 (filter (\<lambda>c. \<not> isCombiningMark c) x)))"
proof -
  have a: "decomposition u 68 = [68]" "decomposition u 100 = [100]"
    using assms(1) by (simp_all add: unicodeFacts_def)
  show ?thesis
    using a assms(2)
    by (auto simp add: list_all_iff replaceUnit_def plain_def isCombiningMark_def)
qed

lemma decomposed_parts:
  assumes "unicodeFacts u"
  shows "\<forall>d\<in>set (concat (map (decomposition u) s)). decomposition u d = [d]"
  using decomposition_parts [OF assms] by auto

lemma stripAccents_plain:
  assumes "unicodeFacts u"
  shows "list_all (plain u) (stripAccents u s)"
  unfolding stripAccents_def
  using assms decomposed_parts [OF assms] by (rule stripped_plain)

lemma removeAccentsWith_plain:
  assumes "list_all (plain u) x"
  shows "removeAccentsWith u x = toLowerCase u (canonicalOrder u x)"
  using assms plain_canonicalOrder [OF assms]
  by (simp add: removeAccentsWith_def normalizeNFD_def concat_plain filter_plain replace_plain)

lemma replaceUnit_canonicalOrder:
  "combiningClass u a = combiningClass u b \<Longrightarrow>
   canonicalOrder u (replaceUnit a b x) = replaceUnit a b (canonicalOrder u x)"
  unfolding replaceUnit_def
  by (rule canonicalOrder_map) simp

lemma replaceUnit_classes:
  "combiningClass u a = combiningClass u b \<Longrightarrow>
   map (combiningClass u) (replaceUnit a b x) = map (combiningClass u) x"
  by (simp add: replaceUnit_def)

lemma marks_reorderable:
  assumes "unicodeFacts u" "847 \<notin> set s" "d \<in> set (concat (map (decomposition u) s))"
    "isCombiningMark d"
  shows "combiningClass u d \<noteq> 0"
proof -
  obtain c where c: "c \<in> set s" "d \<in> set (decomposition u c)" using assms(3) by auto
  have "d \<noteq> 847"
    using facts_unit [OF assms(1), of c] c assms(2) by (auto simp add: unitFacts_def)
  then show ?thesis
    using facts_unit [OF assms(1), of d] assms(4) by (auto simp add: unitFacts_def)
qed

lemma strip_then_order:
  assumes "unicodeFacts u" "847 \<notin> set s"
  shows "filter (\<lambda>c. \<not> isCombiningMark c) (normalizeNFD u s) =
         canonicalOrder u (filter (\<lambda>c. \<not> isCombiningMark c) (concat (map (decomposition u) s)))"
proof -
  let ?ds = "concat (map (decomposition u) s)"
  have "\<forall>d\<in>set ?ds. \<not> \<not> isCombiningMark d \<longrightarrow> combiningClass u d \<noteq> 0"
    using marks_reorderable [OF assms] by blast
  then have "canonicalOrder u (filter (\<lambda>c. \<not> isCombiningMark c) ?ds)
      = filter (\<lambda>c. \<not> isCombiningMark c) (canonicalOrder u ?ds)"
    by (rule canonicalOrder_filter)
  then show ?thesis by (simp add: normalizeNFD_def)
qed

lemma removeAccentsWith_strip_first:
  assumes "unicodeFacts u" "847 \<notin> set s"
  shows "removeAccentsWith u s = toLowerCase u (canonicalOrder u (stripAccents u s))"
proof -
  have k: "combiningClass u 272 = combiningClass u 68" "combiningClass u 273 = combiningClass u 100"
    using assms(1) by (simp_all add: unicodeFacts_def)
  show ?thesis
    by (simp add: removeAccentsWith_def stripAccents_def strip_then_order [OF assms]
        replaceUnit_canonicalOrder k)
qed

lemma casedNext_Nil: "casedNext u [] = False"
  by (simp add: casedNext_def)

lemma casedNext_Cons:
  "casedNext u (c # r) = (if caseIgnorable u c then casedNext u r else cased u c)"
  by (simp add: casedNext_def)

lemma lowerChar_plain:
  assumes "unicodeFacts u" "plain u c"
  shows "\<exists>d. lowerChar u b c a = [d] \<and> stableUnit u d \<and> combiningClass u d = combiningClass u c"
proof (cases "c = 931")
  case True
  then show ?thesis using assms(1) by (simp add: lowerChar_def unicodeFacts_def)
next
  case False
  then have "lowerStable u c"
    using facts_unit [OF assms(1), of c] assms(2) by (simp add: unitFacts_def plain_def)
  then show ?thesis using False
    by (auto simp add: lowerStable_def lowersTo_def lowerChar_def split: list.splits)
qed

lemma lowerFrom_plain:
  assumes "unicodeFacts u" "list_all (plain u) x"
  shows "list_all (stableUnit u) (lowerFrom u b x) \<and>
         map (combiningClass u) (lowerFrom u b x) = map (combiningClass u) x"
  using assms(2)
proof (induction x arbitrary: b)
  case Nil
  show ?case by simp
next
  case (Cons c cs)
  then have "plain u c" by simp
  from lowerChar_plain [OF assms(1) this, of b cs] Cons show ?case by auto
qed

lemma lowerFrom_stable: "list_all (stableUnit u) x \<Longrightarrow> lowerFrom u b x = x"
  by (induction x arbitrary: b) (simp_all add: stableUnit_def lowerChar_def)

lemma toLowerCase_stable: "list_all (stableUnit u) x \<Longrightarrow> toLowerCase u x = x"
  by (simp add: toLowerCase_def lowerFrom_stable)

lemma removeAccentsWith_stable:
  assumes "list_all (stableUnit u) x"
  shows "removeAccentsWith u x = canonicalOrder u x"
proof -
  have p: "list_all (plain u) x" using assms by (simp add: list_all_iff stableUnit_plain)
  have "list_all (stableUnit u) (canonicalOrder u x)"
    using assms by (simp add: list_all_iff set_canonicalOrder)
  then show ?thesis by (simp add: removeAccentsWith_plain [OF p] toLowerCase_stable)
qed

lemma ordered_iff_fixed: "ordered u x \<longleftrightarrow> canonicalOrder u x = x"
  using canonicalOrder_ordered [of u x] ordered_canonicalOrder [of u x] by auto

text \<open>
  Applying \<open>removeAccents\<close> twice gives what applying it once gives exactly when
  removing the marks has left the decomposition in canonical order.
\<close>

lemma idempotent_iff_ordered:
  assumes "unicodeFacts u"
  shows "removeAccentsWith u (removeAccentsWith u s) = removeAccentsWith u s \<longleftrightarrow>
         ordered u (filter (\<lambda>c. \<not> isCombiningMark c) (normalizeNFD u s))"
proof -
  let ?w = "filter (\<lambda>c. \<not> isCombiningMark c) (normalizeNFD u s)"
  let ?v = "replaceUnit 272 68 (replaceUnit 273 100 ?w)"
  have k: "combiningClass u 272 = combiningClass u 68" "combiningClass u 273 = combiningClass u 100"
    using assms by (simp_all add: unicodeFacts_def)
  have "\<forall>d\<in>set (normalizeNFD u s). decomposition u d = [d]"
    using decomposed_parts [OF assms, of s] by (simp add: normalizeNFD_def set_canonicalOrder)
  then have p: "list_all (plain u) ?v" using assms by (intro stripped_plain)
  have r: "removeAccentsWith u s = toLowerCase u ?v" by (simp add: removeAccentsWith_def)
  note l = lowerFrom_plain [OF assms p, of "[]"]
  have c: "map (combiningClass u) (removeAccentsWith u s) = map (combiningClass u) ?w"
    using l by (simp add: r toLowerCase_def replaceUnit_classes k)
  have "removeAccentsWith u (removeAccentsWith u s) = canonicalOrder u (removeAccentsWith u s)"
    using l by (intro removeAccentsWith_stable) (simp add: r toLowerCase_def)
  then have "removeAccentsWith u (removeAccentsWith u s) = removeAccentsWith u s \<longleftrightarrow>
      ordered u (removeAccentsWith u s)"
    by (simp add: ordered_iff_fixed)
  also have "\<dots> \<longleftrightarrow> ordered u ?w" by (simp add: ordered_def c)
  finally show ?thesis .
qed

lemma stripped_ordered:
  assumes "unicodeFacts u" "847 \<notin> set s"
  shows "ordered u (filter (\<lambda>c. \<not> isCombiningMark c) (normalizeNFD u s))"
  by (simp add: strip_then_order [OF assms] ordered_canonicalOrder)


subsection \<open>Lower case and canonical ordering\<close>

text \<open>
  The characters that canonical ordering moves are case-ignorable or not cased, so
  the ordering does not change what \<open>casedNext\<close> finds.
\<close>

lemma swap_context:
  assumes "unicodeFacts u" "combiningClass u x \<noteq> 0" "combiningClass u y \<noteq> 0"
  shows "casedNext u (l @ x # y # r) = casedNext u (l @ y # x # r)"
proof -
  have "caseIgnorable u x \<or> \<not> cased u x" "caseIgnorable u y \<or> \<not> cased u y"
    using facts_unit [OF assms(1), of x] facts_unit [OF assms(1), of y] assms(2,3)
    by (simp_all add: unitFacts_def)
  then show ?thesis by (induction l) (auto simp add: casedNext_Cons)
qed

lemma lowerFrom_context:
  "\<forall>l. casedNext u (l @ b) = casedNext u (l @ b') \<Longrightarrow> lowerFrom u b x = lowerFrom u b' x"
proof (induction x arbitrary: b b')
  case Nil
  show ?case by simp
next
  case (Cons c cs)
  have "casedNext u ([] @ b) = casedNext u ([] @ b')" using Cons.prems by blast
  then have h: "lowerChar u b c cs = lowerChar u b' c cs"
    by (simp add: lowerChar_def finalSigma_def)
  have "\<forall>l. casedNext u (l @ c # b) = casedNext u (l @ c # b')"
  proof
    fix l
    show "casedNext u (l @ c # b) = casedNext u (l @ c # b')"
      using Cons.prems [rule_format, of "l @ [c]"] by simp
  qed
  then have "lowerFrom u (c # b) cs = lowerFrom u (c # b') cs" by (rule Cons.IH)
  then show ?case using h by simp
qed

lemma casedNext_placeUnit:
  assumes "unicodeFacts u"
  shows "casedNext u (placeUnit u x ys) = casedNext u (x # ys)"
proof (induction ys)
  case Nil
  show ?case by simp
next
  case (Cons y ys)
  show ?case
  proof (cases "combiningClass u x \<noteq> 0 \<and> combiningClass u y \<noteq> 0 \<and>
         combiningClass u y < combiningClass u x")
    case True
    have "casedNext u (y # placeUnit u x ys) = casedNext u (y # x # ys)"
      using Cons.IH by (simp add: casedNext_Cons)
    also have "\<dots> = casedNext u (x # y # ys)"
      using swap_context [OF assms, of y x "[]" ys] True by simp
    finally show ?thesis using True by simp
  next
    case False
    then show ?thesis by auto
  qed
qed

lemma casedNext_canonicalOrder:
  assumes "unicodeFacts u"
  shows "casedNext u (canonicalOrder u xs) = casedNext u xs"
proof (induction xs)
  case Nil
  show ?case by (simp add: canonicalOrder_Nil)
next
  case (Cons x xs)
  have "casedNext u (canonicalOrder u (x # xs)) = casedNext u (x # canonicalOrder u xs)"
    by (simp add: canonicalOrder_Cons casedNext_placeUnit [OF assms])
  then show ?case using Cons.IH by (simp add: casedNext_Cons)
qed

lemma lowerChar_mark:
  assumes "unicodeFacts u" "combiningClass u c \<noteq> 0"
  shows "lowerChar u b c a = lowercase u c"
proof -
  have "c \<noteq> 931" using assms by (auto simp add: unicodeFacts_def)
  then show ?thesis by (simp add: lowerChar_def)
qed

lemma lowerFrom_placeUnit:
  assumes "unicodeFacts u" "plain u x" "list_all (plain u) ys"
  shows "lowerFrom u b (placeUnit u x ys) =
         placeUnit u (hd (lowerChar u b x ys)) (lowerFrom u (x # b) ys)"
  using assms(3)
proof (induction ys arbitrary: b)
  case Nil
  obtain dx where "lowerChar u b x [] = [dx]"
    using lowerChar_plain [OF assms(1,2), of b "[]"] by blast
  then show ?case by simp
next
  case (Cons y ys)
  then have py: "plain u y" and pys: "list_all (plain u) ys" by simp_all
  show ?case
  proof (cases "combiningClass u x \<noteq> 0 \<and> combiningClass u y \<noteq> 0 \<and>
         combiningClass u y < combiningClass u x")
    case True
    have mx: "lowerChar u b' x a = lowercase u x" for b' a
      using lowerChar_mark [OF assms(1)] True by simp
    have my: "lowerChar u b' y a = lowercase u y" for b' a
      using lowerChar_mark [OF assms(1)] True by simp
    obtain dx where dx: "lowercase u x = [dx]" "combiningClass u dx = combiningClass u x"
      using lowerChar_plain [OF assms(1,2), of b ys] mx by auto
    obtain dy where dy: "lowercase u y = [dy]" "combiningClass u dy = combiningClass u y"
      using lowerChar_plain [OF assms(1) py, of b ys] my by auto
    have sw: "lowerFrom u (x # y # b) ys = lowerFrom u (y # x # b) ys"
    proof (rule lowerFrom_context, rule allI)
      fix l
      show "casedNext u (l @ x # y # b) = casedNext u (l @ y # x # b)"
        using swap_context [OF assms(1)] True by simp
    qed
    have "lowerFrom u b (placeUnit u x (y # ys)) = dy # lowerFrom u (y # b) (placeUnit u x ys)"
      using True by (simp add: my dy)
    also have "\<dots> = dy # placeUnit u dx (lowerFrom u (x # y # b) ys)"
      using Cons.IH [OF pys, of "y # b"] by (simp add: mx dx)
    also have "\<dots> = placeUnit u dx (dy # lowerFrom u (y # x # b) ys)"
      using True by (simp add: sw dx dy)
    also have "\<dots> = placeUnit u (hd (lowerChar u b x (y # ys))) (lowerFrom u (x # b) (y # ys))"
      by (simp add: mx my dx dy)
    finally show ?thesis .
  next
    case False
    obtain dx where dx: "lowerChar u b x (y # ys) = [dx]"
      "combiningClass u dx = combiningClass u x"
      using lowerChar_plain [OF assms(1,2), of b "y # ys"] by blast
    obtain dy where dy: "lowerChar u (x # b) y ys = [dy]"
      "combiningClass u dy = combiningClass u y"
      using lowerChar_plain [OF assms(1) py, of "x # b" ys] by blast
    have pl: "placeUnit u x (y # ys) = x # y # ys" using False by auto
    have "lowerFrom u b (placeUnit u x (y # ys)) = dx # dy # lowerFrom u (y # x # b) ys"
      unfolding pl by (simp add: dx dy)
    moreover have "placeUnit u (hd (lowerChar u b x (y # ys))) (lowerFrom u (x # b) (y # ys)) =
        dx # dy # lowerFrom u (y # x # b) ys"
      using False by (auto simp add: dx dy)
    ultimately show ?thesis by simp
  qed
qed

lemma lowerFrom_canonicalOrder:
  assumes "unicodeFacts u" "list_all (plain u) t"
  shows "lowerFrom u b (canonicalOrder u t) = canonicalOrder u (lowerFrom u b t)"
  using assms(2)
proof (induction t arbitrary: b)
  case Nil
  show ?case by (simp add: canonicalOrder_Nil)
next
  case (Cons x xs)
  then have px: "plain u x" and pxs: "list_all (plain u) xs" by simp_all
  have po: "list_all (plain u) (canonicalOrder u xs)" using pxs by (rule plain_canonicalOrder)
  have same: "lowerChar u b x (canonicalOrder u xs) = lowerChar u b x xs"
    by (simp add: lowerChar_def finalSigma_def casedNext_canonicalOrder [OF assms(1)])
  obtain dx where dx: "lowerChar u b x xs = [dx]"
    using lowerChar_plain [OF assms(1) px, of b xs] by blast
  have "lowerFrom u b (canonicalOrder u (x # xs)) =
      placeUnit u dx (lowerFrom u (x # b) (canonicalOrder u xs))"
    by (simp add: canonicalOrder_Cons lowerFrom_placeUnit [OF assms(1) px po] same dx)
  also have "\<dots> = placeUnit u dx (canonicalOrder u (lowerFrom u (x # b) xs))"
    using Cons.IH [OF pxs] by simp
  also have "\<dots> = canonicalOrder u (lowerFrom u b (x # xs))"
    by (simp add: canonicalOrder_Cons dx)
  finally show ?case .
qed


subsection \<open>The tables have the properties assumed\<close>

lemmas facts_defs = unitFacts_def undecomposable_def lowerStable_def lowersTo_def stableUnit_def
  isCombiningMark_def unicodeTables_def decompositionTable_def lowercaseTable_def
  combiningClassTable_def casedTable_def caseIgnorableTable_def

lemma facts_latin: "list_all (unitFacts unicodeTables) (0 # 1 # [2..<384])"
  by (simp add: facts_defs)

lemma facts_horn: "list_all (unitFacts unicodeTables) [416, 417, 431, 432]"
  by (simp add: facts_defs)

lemma facts_marks: "list_all (unitFacts unicodeTables) [768..<880]"
  by (simp add: facts_defs)

lemma facts_hebrew: "list_all (unitFacts unicodeTables) [1456..<1466]"
  by (simp add: facts_defs)

lemma facts_viet: "list_all (unitFacts unicodeTables) [7840..<7930]"
  by (simp add: facts_defs)

lemma in_upt: "lo \<le> c \<Longrightarrow> c < hi \<Longrightarrow> c \<in> set [lo..<hi]"
  by (simp only: set_upt atLeastLessThan_iff)

lemma untabled_cases:
  assumes "\<not> tabled c"
  obtains "384 \<le> c \<and> c < 768 \<and> c \<noteq> 416 \<and> c \<noteq> 417 \<and> c \<noteq> 431 \<and> c \<noteq> 432"
  | "880 \<le> c \<and> c < 1456" | "1466 \<le> c \<and> c < 7840" | "7930 \<le> c"
  using assms unfolding tabled_def by fastforce

lemma untabled_decomposition: "\<not> tabled c \<Longrightarrow> decompositionTable c = [c]"
  by (erule untabled_cases) (simp_all add: decompositionTable_def)

lemma untabled_lowercase: "\<not> tabled c \<Longrightarrow> lowercaseTable c = [c]"
  by (erule untabled_cases) (simp_all add: lowercaseTable_def)

lemma untabled_class: "\<not> tabled c \<Longrightarrow> combiningClassTable c = 0"
  by (erule untabled_cases) (simp_all add: combiningClassTable_def)

lemma unitFacts_untabled:
  assumes "\<not> tabled c"
  shows "unitFacts unicodeTables c"
proof -
  have m: "\<not> isCombiningMark c" "c \<noteq> 847"
    using assms by (auto simp add: tabled_def isCombiningMark_def)
  show ?thesis
    using m
    by (simp add: unitFacts_def undecomposable_def lowerStable_def lowersTo_def stableUnit_def
        unicodeTables_def untabled_decomposition [OF assms] untabled_lowercase [OF assms]
        untabled_class [OF assms])
qed

lemma unitFacts_tabled:
  assumes "tabled c"
  shows "unitFacts unicodeTables c"
proof -
  from assms consider "c = 0" | "c = 1" | "2 \<le> c \<and> c < 384" | "c = 416" | "c = 417" | "c = 431"
    | "c = 432" | "768 \<le> c \<and> c < 880" | "1456 \<le> c \<and> c < 1466" | "7840 \<le> c \<and> c < 7930"
    unfolding tabled_def by fastforce
  then show ?thesis
  proof cases
    case 3
    then have "c \<in> set [2..<384]" by (intro in_upt) auto
    then show ?thesis using facts_latin unfolding list_all_iff by (simp del: upt_rec_numeral)
  next
    case 8
    then have "c \<in> set [768..<880]" by (intro in_upt) auto
    then show ?thesis using facts_marks unfolding list_all_iff by blast
  next
    case 9
    then have "c \<in> set [1456..<1466]" by (intro in_upt) auto
    then show ?thesis using facts_hebrew unfolding list_all_iff by blast
  next
    case 10
    then have "c \<in> set [7840..<7930]" by (intro in_upt) auto
    then show ?thesis using facts_viet unfolding list_all_iff by blast
  qed (use facts_latin facts_horn in \<open>simp_all del: upt_rec_numeral\<close>)
qed

lemma unicodeFacts_tables: "unicodeFacts unicodeTables"
proof -
  have a: "\<forall>c. unitFacts unicodeTables c"
    using unitFacts_tabled unitFacts_untabled by blast
  have b: "decomposition unicodeTables 68 = [68] \<and> decomposition unicodeTables 100 = [100] \<and>
      combiningClass unicodeTables 272 = 0 \<and> combiningClass unicodeTables 273 = 0 \<and>
      combiningClass unicodeTables 68 = 0 \<and> combiningClass unicodeTables 100 = 0 \<and>
      stableUnit unicodeTables 962 \<and> stableUnit unicodeTables 963 \<and>
      combiningClass unicodeTables 931 = 0 \<and> combiningClass unicodeTables 962 = 0 \<and>
      combiningClass unicodeTables 963 = 0"
    by (simp add: stableUnit_def isCombiningMark_def unicodeTables_def decompositionTable_def
        lowercaseTable_def combiningClassTable_def)
  show ?thesis unfolding unicodeFacts_def using a b by blast
qed


subsection \<open>The normalizer on stripped forms\<close>

text \<open>
  C9, amended. Whatever the engine's database is, as long as it has the properties
  \<open>unicodeFacts\<close>: normalizing a string twice gives what normalizing it once gives
  exactly when the decomposition of the string, with the marks removed, is still in
  canonical order. This is so for every string without the character U+034F, and for
  such a string \<open>removeAccents\<close> returns the accent-stripped form, put in canonical
  order and then in lower case; the string, its accent-stripped form and its
  accent-stripped, lower-cased form all normalize to the same string.
\<close>

theorem removeAccents_fixes_stripped_forms:
  assumes "unicodeFacts u"
  shows "(removeAccentsWith u (removeAccentsWith u s) = removeAccentsWith u s \<longleftrightarrow>
           ordered u (filter (\<lambda>c. \<not> isCombiningMark c) (normalizeNFD u s))) \<and>
    (847 \<notin> set s \<longrightarrow>
       removeAccentsWith u s = toLowerCase u (canonicalOrder u (stripAccents u s)) \<and>
       removeAccentsWith u (removeAccentsWith u s) = removeAccentsWith u s \<and>
       removeAccentsWith u (stripAccents u s) = removeAccentsWith u s \<and>
       removeAccentsWith u (toLowerCase u (stripAccents u s)) = removeAccentsWith u s)"
proof -
  note p = stripAccents_plain [OF assms, of s]
  note e = idempotent_iff_ordered [OF assms, of s]
  have r: "removeAccentsWith u s = toLowerCase u (canonicalOrder u (stripAccents u s)) \<and>
       removeAccentsWith u (removeAccentsWith u s) = removeAccentsWith u s \<and>
       removeAccentsWith u (stripAccents u s) = removeAccentsWith u s \<and>
       removeAccentsWith u (toLowerCase u (stripAccents u s)) = removeAccentsWith u s"
    if n: "847 \<notin> set s"
  proof -
    have c: "removeAccentsWith u s = toLowerCase u (canonicalOrder u (stripAccents u s))"
      using assms n by (rule removeAccentsWith_strip_first)
    have i: "removeAccentsWith u (removeAccentsWith u s) = removeAccentsWith u s"
      using e stripped_ordered [OF assms n] by simp
    have v: "removeAccentsWith u (stripAccents u s) = removeAccentsWith u s"
      by (simp add: c removeAccentsWith_plain [OF p])
    have st: "list_all (stableUnit u) (toLowerCase u (stripAccents u s))"
      using lowerFrom_plain [OF assms p, of "[]"] by (simp add: toLowerCase_def)
    have "removeAccentsWith u (toLowerCase u (stripAccents u s))
        = canonicalOrder u (toLowerCase u (stripAccents u s))"
      using st by (rule removeAccentsWith_stable)
    also have "\<dots> = toLowerCase u (canonicalOrder u (stripAccents u s))"
      by (simp add: toLowerCase_def lowerFrom_canonicalOrder [OF assms p])
    finally have l: "removeAccentsWith u (toLowerCase u (stripAccents u s)) = removeAccentsWith u s"
      by (simp add: c)
    show ?thesis using c i v l by blast
  qed
  show ?thesis using e r by blast
qed

lemmas normalizer_defs = removeAccents_def removeAccentsWith_def stripAccents_def normalizeNFD_def
  canonicalOrder_def toLowerCase_def lowerChar_def finalSigma_def casedNext_def replaceUnit_def
  isCombiningMark_def unicodeTables_def decompositionTable_def lowercaseTable_def
  combiningClassTable_def casedTable_def caseIgnorableTable_def

theorem removeAccents_fixes_stripped_forms_witness:
  "unicodeFacts unicodeTables \<and>
   847 \<notin> set [272, 7845, 117, 32, 80, 104, (225::nat)] \<and>
   removeAccents [272, 7845, 117, 32, 80, 104, 225] = [100, 97, 117, 32, 112, 104, 97] \<and>
   stripAccents unicodeTables [272, 7845, 117, 32, 80, 104, 225] = [68, 97, 117, 32, 80, 104, 97] \<and>
   toLowerCase unicodeTables [68, 97, 117, 32, 80, 104, 97] = [100, 97, 117, 32, 112, 104, 97] \<and>
   removeAccents [68, 97, 117, 32, 80, 104, 97] = removeAccents [272, 7845, 117, 32, 80, 104, 225] \<and>
   removeAccents [100, 97, 117, 32, 112, 104, 97] = removeAccents [272, 7845, 117, 32, 80, 104, 225] \<and>
   removeAccents (removeAccents [272, 7845, 117, 32, 80, 104, 225]) =
     removeAccents [272, 7845, 117, 32, 80, 104, 225] \<and>
   847 \<notin> set [65, 803, 769, (931::nat)] \<and>
   removeAccents [65, 803, 769, 931] = [97, 962] \<and>
   stripAccents unicodeTables [65, 803, 769, 931] = [65, 931] \<and>
   toLowerCase unicodeTables [65, 931] = [97, 962] \<and>
   removeAccents [65, 931] = removeAccents [65, 803, 769, 931] \<and>
   removeAccents [97, 962] = removeAccents [65, 803, 769, 931]"
proof -
  let ?s = "[272, 7845, 117, 32, 80, 104, (225::nat)]"
  let ?t = "[65, 803, 769, (931::nat)]"
  have a: "847 \<notin> set ?s" "847 \<notin> set ?t"
    by simp_all
  have c: "removeAccents ?s = [100, 97, 117, 32, 112, 104, 97]"
    "removeAccents ?t = [97, 962]"
    by (simp_all add: normalizer_defs)
  have d: "stripAccents unicodeTables ?s = [68, 97, 117, 32, 80, 104, 97]"
    "stripAccents unicodeTables ?t = [65, 931]"
    by (simp_all add: normalizer_defs)
  have e: "toLowerCase unicodeTables [68, 97, 117, 32, 80, 104, 97] =
      [100, 97, 117, 32, 112, 104, 97]"
    "toLowerCase unicodeTables [65, 931] = [97, 962]"
    by (simp_all add: normalizer_defs)
  from removeAccents_fixes_stripped_forms [OF unicodeFacts_tables, of ?s] a
  have f: "removeAccents (removeAccents ?s) = removeAccents ?s \<and>
    removeAccents (stripAccents unicodeTables ?s) = removeAccents ?s \<and>
    removeAccents (toLowerCase unicodeTables (stripAccents unicodeTables ?s)) = removeAccents ?s"
    unfolding removeAccents_def by blast
  from removeAccents_fixes_stripped_forms [OF unicodeFacts_tables, of ?t] a
  have g: "removeAccents (stripAccents unicodeTables ?t) = removeAccents ?t \<and>
    removeAccents (toLowerCase unicodeTables (stripAccents unicodeTables ?t)) = removeAccents ?t"
    unfolding removeAccents_def by blast
  show ?thesis using unicodeFacts_tables a c d e f g by simp
qed

text \<open>
  C9 as stated fails. U+034F (combining grapheme joiner) lies in the stripped range
  and has combining class 0. Between the Hebrew points U+05B8 (class 18) and U+05B0
  (class 10) it keeps them from being reordered; once it is stripped, a second
  normalization reorders them.
\<close>

theorem removeAccents_not_idempotent_counterexample:
  "removeAccents (removeAccents [1464, 847, 1456]) \<noteq> removeAccents [1464, 847, 1456]"
  by (simp add: normalizer_defs)

section \<open>Properties of the view composer\<close>

lemma set_insertBy [simp]: "set (insertBy cmp x ys) = insert x (set ys)"
  by (induction ys) auto

lemma mset_insertBy [simp]: "mset (insertBy cmp x ys) = add_mset x (mset ys)"
  by (induction ys) auto

lemma mset_sortBy [simp]: "mset (sortBy cmp xs) = mset xs"
  by (induction xs) (simp_all add: sortBy_def)

lemma sorted_insertBy:
  assumes "\<And>a b. cmp a b \<le> 0 \<longleftrightarrow> key b \<le> key a"
    and "sorted_wrt (\<lambda>a b. key b \<le> (key a :: int)) ys"
  shows "sorted_wrt (\<lambda>a b. key b \<le> key a) (insertBy cmp x ys)"
  using assms(2)
proof (induction ys)
  case Nil
  show ?case by simp
next
  case (Cons y ys)
  show ?case
  proof (cases "cmp x y \<le> 0")
    case True
    then have "key y \<le> key x" using assms(1) by simp
    then show ?thesis using True Cons.prems by (auto intro: order_trans)
  next
    case False
    then have "key x \<le> key y" using assms(1) [of x y] by simp
    then show ?thesis using False Cons by auto
  qed
qed

lemma sorted_sortBy:
  assumes "\<And>a b. cmp a b \<le> 0 \<longleftrightarrow> key b \<le> (key a :: int)"
  shows "sorted_wrt (\<lambda>a b. key b \<le> key a) (sortBy cmp xs)"
proof (induction xs)
  case Nil
  show ?case by (simp add: sortBy_def)
next
  case (Cons x xs)
  have "sortBy cmp (x # xs) = insertBy cmp x (sortBy cmp xs)" by (simp add: sortBy_def)
  then show ?case using sorted_insertBy [of cmp key, OF assms Cons] by simp
qed

lemma compare_history:
  "compareComics lc categoryHistory opt a b \<le> 0 \<longleftrightarrow> readTime b \<le> readTime a"
  by (simp add: compareComics_def)

text \<open>
  C8. When the active category is the history category, whatever the sort option
  and the locale comparison are, \<open>filteredComics\<close> is the list of the comics that
  match the search and have a read marker, ordered by \<open>lastRead.timestamp\<close>
  descending. The sort step itself orders any list of comics by that time
  descending, where a comic without a read marker counts as time 0 and so stands
  after every comic read at a positive time.
\<close>

theorem history_sorted_by_last_read:
  assumes "selectedCategory s = categoryHistory"
  shows "sorted_wrt (\<lambda>a b. readTime b \<le> readTime a) (filteredComics lc s) \<and>
         mset (filteredComics lc s) =
           mset (filter (\<lambda>comic. matchesSearch (searchQuery s) (searchScope s) comic \<and>
                                  lastRead comic \<noteq> None) (comics s)) \<and>
         filteredComics lc' (s\<lparr>sortOption := opt\<rparr>) = filteredComics lc s \<and>
         sorted_wrt (\<lambda>a b. readTime b \<le> readTime a)
           (sortBy (compareComics lc (selectedCategory s) (sortOption s)) xs) \<and>
         mset (sortBy (compareComics lc (selectedCategory s) (sortOption s)) xs) = mset xs \<and>
         (lastRead c = None \<longrightarrow> readTime c = 0) \<and>
         (lastRead c = Some lr \<longrightarrow> readTime c = timestamp lr)"
proof -
  have cmp: "compareComics lc' categoryHistory opt' = compareComics lc categoryHistory (sortOption s)"
    for lc' opt'
    by (intro ext) (simp add: compareComics_def)
  have ne: "categoryHistory \<noteq> categoryAll" "categoryHistory \<noteq> categoryFollowing"
    by (simp_all add: categoryHistory_def categoryAll_def categoryFollowing_def)
  have cat: "matchesCategory categoryHistory u comic = (lastRead comic \<noteq> None)" for u comic
    using ne by (simp add: matchesCategory_def)
  have s1: "sorted_wrt (\<lambda>a b. readTime b \<le> readTime a)
      (sortBy (compareComics lc categoryHistory (sortOption s)) ys)" for ys
    by (rule sorted_sortBy) (rule compare_history)
  show ?thesis
    using assms s1 cmp [of lc' opt]
    by (simp add: filteredComics_def cat readTime_def orZero_def)
qed

theorem history_sorted_by_last_read_witness:
  "selectedCategory historyApp = categoryHistory \<and>
   filteredComics (\<lambda>a b. 0) historyApp = [readComic ''b'' (Some 9), readComic ''a'' (Some 5)] \<and>
   sortBy (compareComics (\<lambda>a b. 0) (selectedCategory historyApp) (sortOption historyApp))
     (comics historyApp) =
     [readComic ''b'' (Some 9), readComic ''a'' (Some 5), readComic ''n'' None] \<and>
   readTime (readComic ''n'' None) = 0 \<and>
   sorted_wrt (\<lambda>a b. readTime b \<le> readTime a) (filteredComics (\<lambda>a b. 0) historyApp)"
proof -
  have a: "selectedCategory historyApp = categoryHistory"
    by (simp add: historyApp_def initialApp_def)
  have ne: "categoryHistory \<noteq> categoryAll" "categoryHistory \<noteq> categoryFollowing"
    by (simp_all add: categoryHistory_def categoryAll_def categoryFollowing_def)
  have q: "removeAccents [] = []" by (simp add: normalizer_defs)
  have t: "readTime (readComic ''n'' None) = 0" "readTime (readComic ''a'' (Some 5)) = 5"
    "readTime (readComic ''b'' (Some 9)) = 9"
    by (simp_all add: readTime_def readComic_def orZero_def)
  have l: "lastRead (readComic ''n'' None) = None" "lastRead (readComic ''a'' (Some 5)) \<noteq> None"
    "lastRead (readComic ''b'' (Some 9)) \<noteq> None"
    by (simp_all add: readComic_def)
  have f: "filteredComics (\<lambda>a b. 0) historyApp =
      [readComic ''b'' (Some 9), readComic ''a'' (Some 5)]"
    using ne by (simp add: filteredComics_def historyApp_def initialApp_def matchesSearch_def
        matchesCategory_def q l sortBy_def compareComics_def t)
  have s: "sortBy (compareComics (\<lambda>a b. 0) (selectedCategory historyApp) (sortOption historyApp))
     (comics historyApp) =
     [readComic ''b'' (Some 9), readComic ''a'' (Some 5), readComic ''n'' None]"
    by (simp add: historyApp_def initialApp_def sortBy_def compareComics_def t)
  from history_sorted_by_last_read [OF a, of "\<lambda>a b. 0"] a f s t show ?thesis by simp
qed

end
